theory Spec2Isabelle
  imports Complex_Main
begin

unbundle bit_operations_syntax

section \<open>Timeslot template (ieee802154/tsch/timeslot\_template.py)\<close>

text \<open>
  The constructor of \<open>TimeslotTemplate\<close> receives a Python dictionary from attribute
  names to integers.  A dictionary is modelled as an association list whose keys are
  distinct (the order is the insertion order); \<open>len\<close> is the length of the list and
  \<open>attributes[k]\<close> is a lookup that raises \<open>KeyError\<close> when the key is absent.

  Every duration is a pandas \<open>Timedelta\<close>, which stores an integer number of
  nanoseconds; \<open>Timedelta(v, unit="us")\<close> is \<open>v * 1000\<close>.  The only division of the
  constructor is \<open>mac_ts_rx_wait / 2\<close>; its operand is a multiple of 1000, so the
  quotient is an exact number of nanoseconds and integer division gives it.
\<close>

datatype template_error = KeyError string | NotValidTimeslotTemplateError | OutOfBoundsTimedelta

type_synonym attributes = "(string \<times> int) list"

record TimeslotTemplate =
  mac_ts_cca_offset :: int
  mac_ts_cca :: int
  mac_ts_rx_tx :: int
  mac_ts_tx_offset :: int
  mac_ts_max_tx :: int
  mac_ts_rx_offset :: int
  mac_ts_rx_wait :: int
  mac_ts_rx_ack_delay :: int
  mac_ts_tx_ack_delay :: int
  mac_ts_ack_wait :: int
  mac_ts_max_ack :: int
  mac_ts_timeslot_length :: int

definition Timedelta_us :: "int \<Rightarrow> int" where
  "Timedelta_us v = v * 1000"

definition getitem :: "attributes \<Rightarrow> string \<Rightarrow> template_error + int" where
  "getitem attrs k = (case map_of attrs k of None \<Rightarrow> Inl (KeyError k) | Some v \<Rightarrow> Inr v)"

definition bind_err :: "'e + 'a \<Rightarrow> ('a \<Rightarrow> 'e + 'b) \<Rightarrow> 'e + 'b" where
  "bind_err r f = (case r of Inl e \<Rightarrow> Inl e | Inr v \<Rightarrow> f v)"

text \<open>
  A \<open>Timedelta\<close> counts nanoseconds in 64 bits: pandas refuses a number of
  microseconds whose nanoseconds do not fit (\<open>OutOfBoundsTimedelta\<close>), at the line
  that reads the attribute and before the range of the attributes is tested.
\<close>

definition timedelta_in_bounds :: "int \<Rightarrow> bool" where
  "timedelta_in_bounds v \<longleftrightarrow> - (2 ^ 63) < v * 1000 \<and> v * 1000 < 2 ^ 63"

definition read_attribute :: "attributes \<Rightarrow> string \<Rightarrow> template_error + int" where
  "read_attribute attrs k =
     bind_err (getitem attrs k)
       (\<lambda>v. if timedelta_in_bounds v then Inr v else Inl OutOfBoundsTimedelta)"

text \<open>The twelve reads of the constructor, in the order of the source (lines 35 to 46).\<close>

definition read_attributes :: "attributes \<Rightarrow> template_error + TimeslotTemplate" where
  "read_attributes attrs =
     bind_err (read_attribute attrs ''macTsCcaOffset'') (\<lambda>cca_offset.
     bind_err (read_attribute attrs ''macTsCca'') (\<lambda>cca.
     bind_err (read_attribute attrs ''macTsRxTx'') (\<lambda>rx_tx.
     bind_err (read_attribute attrs ''macTsTxOffset'') (\<lambda>tx_offset.
     bind_err (read_attribute attrs ''macTsMaxTx'') (\<lambda>max_tx.
     bind_err (read_attribute attrs ''macTsRxOffset'') (\<lambda>rx_offset.
     bind_err (read_attribute attrs ''macTsRxWait'') (\<lambda>rx_wait.
     bind_err (read_attribute attrs ''macTsRxAckDelay'') (\<lambda>rx_ack_delay.
     bind_err (read_attribute attrs ''macTsTxAckDelay'') (\<lambda>tx_ack_delay.
     bind_err (read_attribute attrs ''macTsAckWait'') (\<lambda>ack_wait.
     bind_err (read_attribute attrs ''macTsMaxAck'') (\<lambda>max_ack.
     bind_err (read_attribute attrs ''macTsTimeslotLength'') (\<lambda>timeslot_length.
       Inr \<lparr> mac_ts_cca_offset = Timedelta_us cca_offset,
             mac_ts_cca = Timedelta_us cca,
             mac_ts_rx_tx = Timedelta_us rx_tx,
             mac_ts_tx_offset = Timedelta_us tx_offset,
             mac_ts_max_tx = Timedelta_us max_tx,
             mac_ts_rx_offset = Timedelta_us rx_offset,
             mac_ts_rx_wait = Timedelta_us rx_wait,
             mac_ts_rx_ack_delay = Timedelta_us rx_ack_delay,
             mac_ts_tx_ack_delay = Timedelta_us tx_ack_delay,
             mac_ts_ack_wait = Timedelta_us ack_wait,
             mac_ts_max_ack = Timedelta_us max_ack,
             mac_ts_timeslot_length = Timedelta_us timeslot_length \<rparr>))))))))))))"

text \<open>The loop over \<open>attributes.items()\<close> (lines 48 to 51).\<close>

fun values_in_range :: "attributes \<Rightarrow> bool" where
  "values_in_range [] = True"
| "values_in_range ((name, v) # rest) =
     (if v < 0 \<or> v > 65535 then False else values_in_range rest)"

text \<open>The condition of the last \<open>if\<close> (lines 53 to 65): true when the template is refused.\<close>

definition template_refused :: "TimeslotTemplate \<Rightarrow> bool" where
  "template_refused t \<longleftrightarrow>
     mac_ts_tx_offset t \<noteq> mac_ts_cca_offset t + mac_ts_cca t + mac_ts_rx_tx t
   \<or> mac_ts_tx_offset t \<noteq> mac_ts_rx_offset t + mac_ts_rx_wait t div 2
   \<or> mac_ts_rx_ack_delay t > mac_ts_tx_ack_delay t
   \<or> mac_ts_rx_ack_delay t + mac_ts_ack_wait t \<le> mac_ts_tx_ack_delay t
   \<or> mac_ts_tx_offset t + mac_ts_max_tx t + mac_ts_rx_ack_delay t + mac_ts_ack_wait t
        > mac_ts_timeslot_length t
   \<or> mac_ts_tx_offset t + mac_ts_max_tx t + mac_ts_tx_ack_delay t + mac_ts_max_ack t
        > mac_ts_timeslot_length t
   \<or> mac_ts_rx_offset t + mac_ts_rx_wait t + mac_ts_max_tx t + mac_ts_tx_ack_delay t
        + mac_ts_max_ack t > mac_ts_timeslot_length t + mac_ts_cca_offset t
   \<or> mac_ts_rx_wait t div 2 > mac_ts_rx_offset t + mac_ts_timeslot_length t
        - mac_ts_tx_offset t - mac_ts_max_tx t - mac_ts_tx_ack_delay t - mac_ts_max_ack t"

definition TimeslotTemplate_init :: "attributes \<Rightarrow> template_error + TimeslotTemplate" where
  "TimeslotTemplate_init attrs =
     (if length attrs > 12 then Inl NotValidTimeslotTemplateError
      else bind_err (read_attributes attrs) (\<lambda>t.
        if \<not> values_in_range attrs then Inl NotValidTimeslotTemplateError
        else if template_refused t then Inl NotValidTimeslotTemplateError
        else Inr t))"

definition defaultTimeslotTemplateFor2450MHzBand_attributes :: attributes where
  "defaultTimeslotTemplateFor2450MHzBand_attributes =
     [(''macTsCcaOffset'', 1800), (''macTsCca'', 128), (''macTsTxOffset'', 2120),
      (''macTsRxOffset'', 1020), (''macTsRxAckDelay'', 800), (''macTsTxAckDelay'', 1000),
      (''macTsRxWait'', 2200), (''macTsRxTx'', 192), (''macTsMaxAck'', 2400),
      (''macTsMaxTx'', 4256), (''macTsTimeslotLength'', 10000), (''macTsAckWait'', 400)]"

text \<open>
  The condition of the specification, in its own words: the twelve attributes are
  integers of the range 0 to 65535, and the seven timing relations hold between their
  values (in microseconds).  \<open>rxWait/2\<close> is an exact half, so a relation with it is
  stated on the doubled quantities.
\<close>

definition attribute_names :: "string list" where
  "attribute_names =
     [''macTsCcaOffset'', ''macTsCca'', ''macTsRxTx'', ''macTsTxOffset'', ''macTsMaxTx'',
      ''macTsRxOffset'', ''macTsRxWait'', ''macTsRxAckDelay'', ''macTsTxAckDelay'',
      ''macTsAckWait'', ''macTsMaxAck'', ''macTsTimeslotLength'']"

definition attributes_in_range :: "attributes \<Rightarrow> bool" where
  "attributes_in_range attrs \<longleftrightarrow>
     list_all (\<lambda>k. case map_of attrs k of None \<Rightarrow> False | Some v \<Rightarrow> 0 \<le> v \<and> v \<le> 65535)
       attribute_names"

definition us :: "attributes \<Rightarrow> string \<Rightarrow> int" where
  "us attrs k = (case map_of attrs k of None \<Rightarrow> 0 | Some v \<Rightarrow> v)"

definition timing_invariants :: "attributes \<Rightarrow> bool" where
  "timing_invariants a \<longleftrightarrow>
     us a ''macTsTxOffset'' = us a ''macTsCcaOffset'' + us a ''macTsCca'' + us a ''macTsRxTx''
   \<and> 2 * us a ''macTsTxOffset'' = 2 * us a ''macTsRxOffset'' + us a ''macTsRxWait''
   \<and> us a ''macTsRxAckDelay'' \<le> us a ''macTsTxAckDelay''
   \<and> us a ''macTsTxAckDelay'' < us a ''macTsRxAckDelay'' + us a ''macTsAckWait''
   \<and> us a ''macTsTxOffset'' + us a ''macTsMaxTx'' + us a ''macTsRxAckDelay''
        + us a ''macTsAckWait'' \<le> us a ''macTsTimeslotLength''
   \<and> us a ''macTsTxOffset'' + us a ''macTsMaxTx'' + us a ''macTsTxAckDelay''
        + us a ''macTsMaxAck'' \<le> us a ''macTsTimeslotLength''
   \<and> us a ''macTsRxOffset'' + us a ''macTsRxWait'' + us a ''macTsMaxTx''
        + us a ''macTsTxAckDelay'' + us a ''macTsMaxAck''
        \<le> us a ''macTsTimeslotLength'' + us a ''macTsCcaOffset''
   \<and> us a ''macTsRxWait'' \<le> 2 * (us a ''macTsRxOffset'' + us a ''macTsTimeslotLength''
        - us a ''macTsTxOffset'' - us a ''macTsMaxTx'' - us a ''macTsTxAckDelay''
        - us a ''macTsMaxAck'')"

definition construction_succeeds :: "attributes \<Rightarrow> bool" where
  "construction_succeeds attrs \<longleftrightarrow> (case TimeslotTemplate_init attrs of Inl e \<Rightarrow> False | Inr t \<Rightarrow> True)"


text \<open>The record that the twelve reads build from the values \<open>f\<close> gives to the names.\<close>

definition template_of :: "(string \<Rightarrow> int) \<Rightarrow> TimeslotTemplate" where
  "template_of f =
     \<lparr> mac_ts_cca_offset = Timedelta_us (f ''macTsCcaOffset''),
       mac_ts_cca = Timedelta_us (f ''macTsCca''),
       mac_ts_rx_tx = Timedelta_us (f ''macTsRxTx''),
       mac_ts_tx_offset = Timedelta_us (f ''macTsTxOffset''),
       mac_ts_max_tx = Timedelta_us (f ''macTsMaxTx''),
       mac_ts_rx_offset = Timedelta_us (f ''macTsRxOffset''),
       mac_ts_rx_wait = Timedelta_us (f ''macTsRxWait''),
       mac_ts_rx_ack_delay = Timedelta_us (f ''macTsRxAckDelay''),
       mac_ts_tx_ack_delay = Timedelta_us (f ''macTsTxAckDelay''),
       mac_ts_ack_wait = Timedelta_us (f ''macTsAckWait''),
       mac_ts_max_ack = Timedelta_us (f ''macTsMaxAck''),
       mac_ts_timeslot_length = Timedelta_us (f ''macTsTimeslotLength'') \<rparr>"

text \<open>A dictionary with one attribute more than the twelve of the default template.\<close>

definition attributes_with_unknown :: attributes where
  "attributes_with_unknown =
     defaultTimeslotTemplateFor2450MHzBand_attributes @ [(''macTsUnknown'', 0)]"

section \<open>Nodes and node groups (ieee802154/node.py, node\_group.py, pan\_coordinator.py)\<close>

text \<open>
  A node object is identified by its \<open>id\<close>: \<open>Node.__init__\<close> refuses an id that the
  group already holds (node.py, lines 108 to 110), so inside one group object identity
  and equality of ids coincide.  Of a node the model keeps what the simulator's control
  flow reads: the id, the type, the boot time (nanoseconds of a \<open>Timedelta\<close>) and the
  MAC address.  The address is only ever read through \<open>netaddr.EUI(mac_address).words\<close>
  (a library outside the repository), so the node carries that tuple of words.  Position, mobility, transmission power, radio sensitivity and channel
  switching time only enter the radio computations, which are floating point and random;
  their outcomes are inputs of the model (see \<open>radio\<close> below).
\<close>

datatype NodeType = FFD | RFD

record Node =
  node_id :: int
  node_type :: NodeType
  boot_time :: int
  mac_words :: "int list"

text \<open>
  \<open>NodeGroup\<close>: the list of nodes in the order of their creation, and the PAN
  coordinator if one was created.  \<open>num_ffds\<close> is the counter that \<open>__add_node\<close>
  increments for every FFD it appends, that is the number of FFDs in the list.
\<close>

record NodeGroup =
  nodes :: "Node list"
  pan_coordinator :: "Node option"

definition num_ffds :: "NodeGroup \<Rightarrow> int" where
  "num_ffds g = int (length (filter (\<lambda>n. node_type n = FFD) (nodes g)))"

definition size_of_group :: "NodeGroup \<Rightarrow> int" where
  "size_of_group g = int (length (nodes g))"

text \<open>
  What the constructors of \<open>Node\<close> and \<open>PANCoordinator\<close> guarantee of every group
  they have built: ids are non-negative and distinct, and the PAN coordinator, when
  present, is a member of the group of type FFD (pan\_coordinator.py, line 36).
\<close>

definition wf_group :: "NodeGroup \<Rightarrow> bool" where
  "wf_group g \<longleftrightarrow>
     distinct (map node_id (nodes g))
   \<and> list_all (\<lambda>n. 0 \<le> node_id n) (nodes g)
   \<and> (case pan_coordinator g of None \<Rightarrow> True
       | Some p \<Rightarrow> p \<in> set (nodes g) \<and> node_type p = FFD)"

section \<open>The simulator's constructor (ieee802154/tsch/joining\_phase\_simulator.py)\<close>

datatype EBSchedulingMethod =
  CFASV | MAC_BASED_AS | CFASH | ECFASV | EMAC_BASED_AS | ECFASH | ECV | ECH | Minimal6TiSCH

text \<open>
  The arguments of \<open>JoiningPhaseSimulator.__init__\<close>.  Durations are nanoseconds.
  \<open>t_eb\<close> stands for the value of
  \<open>Timedelta((eb_length * 8 + 48) / data_rate, unit="s")\<close> (line 78): the conversion of
  a float number of seconds to nanoseconds is done inside pandas, so its result is taken
  as given.
\<close>

record sim_args =
  node_group :: NodeGroup
  scheduling_method :: EBSchedulingMethod
  timeslot_template :: TimeslotTemplate
  slotframe_length :: int
  eb_length :: int
  num_channels :: int
  scan_duration :: int
  ebi :: int
  atp_enabled :: bool
  t_eb :: int

datatype config_reason =
    GroupIsEmpty | NoPanCoordinator | BadSlotframeLength | BadEbLength | BadNumChannels
  | RequiresMoreThanOneChannel | BadScanDuration | BadEbi | AtpNotSupported
  | SlotsLessThanRequired | NotOneToOne

datatype sim_error =
    NotValidJoiningPhaseSimulatorConfig config_reason
  | ZeroDivisionError
  | SensingCellKeyError
  | ValueError

definition is_pan_coordinator :: "NodeGroup \<Rightarrow> Node \<Rightarrow> bool" where
  "is_pan_coordinator g n \<longleftrightarrow> pan_coordinator g = Some n"

definition enhanced_methods :: "EBSchedulingMethod set" where
  "enhanced_methods = {ECV, ECH, ECFASV, ECFASH, EMAC_BASED_AS}"

text \<open>\<open>__check_arguments\<close> (lines 822 to 876); the \<open>isinstance\<close> tests are the types.\<close>

definition check_arguments :: "sim_args \<Rightarrow> sim_error option" where
  "check_arguments a =
     (if size_of_group (node_group a) = 0
        then Some (NotValidJoiningPhaseSimulatorConfig GroupIsEmpty)
      else if pan_coordinator (node_group a) = None
        then Some (NotValidJoiningPhaseSimulatorConfig NoPanCoordinator)
      else if slotframe_length a \<le> 0
        then Some (NotValidJoiningPhaseSimulatorConfig BadSlotframeLength)
      else if eb_length a \<le> 0 \<or> eb_length a > 127
        then Some (NotValidJoiningPhaseSimulatorConfig BadEbLength)
      else if num_channels a \<le> 0
        then Some (NotValidJoiningPhaseSimulatorConfig BadNumChannels)
      else if scheduling_method a \<in> enhanced_methods
              \<and> list_ex (\<lambda>n. \<not> is_pan_coordinator (node_group a) n \<and> node_type n = FFD)
                   (nodes (node_group a))
              \<and> num_channels a = 1
        then Some (NotValidJoiningPhaseSimulatorConfig RequiresMoreThanOneChannel)
      else if scan_duration a \<le> 0
        then Some (NotValidJoiningPhaseSimulatorConfig BadScanDuration)
      else if ebi a \<le> 0
        then Some (NotValidJoiningPhaseSimulatorConfig BadEbi)
      else if scheduling_method a = Minimal6TiSCH \<and> atp_enabled a
        then Some (NotValidJoiningPhaseSimulatorConfig AtpNotSupported)
      else None)"

text \<open>
  \<open>int(math.ceil(a / b))\<close> (lines 100 to 103 and 126 to 130).  The quotient of two
  Python integers is a float: the double nearest to the exact quotient, ties to even.  A
  quotient of magnitude at most \<open>2^-1075\<close> is therefore rounded to zero, and its ceiling
  is \<open>0\<close> whatever the exact quotient.  Every other quotient with \<open>|a| < 2^53\<close> is
  rounded to a double on the same side of every integer, so that its ceiling is the
  ceiling of the exact quotient; \<open>a\<close> is the number of FFDs of a group, or one less: the
  length of a list in memory.  The division raises \<open>ZeroDivisionError\<close> when \<open>b\<close> is
  zero; the caller tests that.
\<close>

definition ceil_div :: "int \<Rightarrow> int \<Rightarrow> int" where
  "ceil_div a b = (if \<bar>a\<bar> * 2 ^ 1075 \<le> \<bar>b\<bar> then 0 else - ((- a) div b))"

text \<open>\<open>range(start, stop, step)\<close> for a positive step, and \<open>range(start, stop)\<close>.\<close>

function range_step :: "int \<Rightarrow> int \<Rightarrow> int \<Rightarrow> int list" where
  "range_step start stop step =
     (if step \<le> 0 \<or> stop \<le> start then []
      else start # range_step (start + step) stop step)"
  by pat_completeness auto
termination
  by (relation "measure (\<lambda>(start, stop, step). nat (stop - start))") auto

definition range2 :: "int \<Rightarrow> int \<Rightarrow> int list" where
  "range2 start stop = [start..stop - 1]"

text \<open>
  The loop that fills \<open>temp\<close> (lines 114 to 123 and 142 to 152).  \<open>sel\<close> selects the
  nodes that take part; the result is the error the loop raises, if any.
\<close>

fun check_ids :: "(Node \<Rightarrow> bool) \<Rightarrow> int \<Rightarrow> Node list \<Rightarrow> int set \<Rightarrow> sim_error option" where
  "check_ids sel m [] temp = None"
| "check_ids sel m (n # ns) temp =
     (if sel n then
        (if m = 0 then Some ZeroDivisionError
         else if node_id n mod m \<in> temp
           then Some (NotValidJoiningPhaseSimulatorConfig NotOneToOne)
         else check_ids sel m ns (insert (node_id n mod m) temp))
      else check_ids sel m ns temp)"

text \<open>
  The serial subslot numbers (lines 171 to 185).  The outer loop visits the
  advertisement slots \<open>i = 1, 2, ...\<close> and compares the slotframes of slot \<open>i - 1\<close> and
  slot \<open>i\<close>; the recursion walks down the list of positions by adjacent pairs.
\<close>

fun ssn_loop :: "int \<Rightarrow> int \<Rightarrow> int list \<Rightarrow> int list \<Rightarrow> int list" where
  "ssn_loop L sub ssn (p # q # ps) =
     (let next_ssn = (if p div L = q div L then last ssn + 1 else 0)
      in ssn_loop L sub (ssn @ map (\<lambda>j. next_ssn + j) (range2 0 sub)) (q # ps))"
| "ssn_loop L sub ssn ps = ssn"

definition compute_ssn :: "int \<Rightarrow> int \<Rightarrow> int list \<Rightarrow> int list option" where
  "compute_ssn L sub pos =
     (if sub > 1 then Some (ssn_loop L sub (range2 0 sub) pos) else None)"

text \<open>The fields of the constructed object that the rest of the class reads.\<close>

record simulator =
  args :: sim_args
  subslot_length :: int
  subslots_per_adv_slot :: int
  num_slots_in_ms :: int
  adv_slots_pos_in_ms :: "int list"
  num_adv_slots_in_ms :: int
  slot_0_start_time :: int
  total_adv_subslots_in_ms :: int
  ssn :: "int list option"

text \<open>Lines 157 to 185: what follows the choice of the advertisement slots.\<close>

definition finish_init :: "sim_args \<Rightarrow> int \<Rightarrow> int list \<Rightarrow> simulator" where
  "finish_init a sub pos =
     \<lparr> args = a,
       subslot_length = mac_ts_tx_offset (timeslot_template a) + t_eb a,
       subslots_per_adv_slot = sub,
       num_slots_in_ms = slotframe_length a * ebi a,
       adv_slots_pos_in_ms = pos,
       num_adv_slots_in_ms = int (length pos),
       slot_0_start_time =
         (case pan_coordinator (node_group a) of None \<Rightarrow> 0 | Some p \<Rightarrow> boot_time p),
       total_adv_subslots_in_ms = int (length pos) * sub,
       ssn = compute_ssn (slotframe_length a) sub pos \<rparr>"

text \<open>The positions of the first \<open>R\<close> slots of every slotframe (lines 154 and 155).\<close>

definition first_slots_of_each_slotframe :: "int \<Rightarrow> int \<Rightarrow> int \<Rightarrow> int list" where
  "first_slots_of_each_slotframe num_slots L R =
     concat (map (\<lambda>i. range2 i (i + R)) (range_step 0 num_slots L))"

definition required_adv_slots :: "sim_args \<Rightarrow> int \<Rightarrow> int" where
  "required_adv_slots a sub =
     (if scheduling_method a \<in> {CFASV, CFASH, MAC_BASED_AS}
      then ceil_div (num_ffds (node_group a)) (num_channels a * ebi a * sub)
      else ceil_div (num_ffds (node_group a) - 1) ((num_channels a - 1) * ebi a * sub))"

text \<open>
  Lines 83 to 86: the number of subslots of an advertisement slot.  The floor division of
  two \<open>Timedelta\<close> values is the floor division of their nanoseconds, and raises
  \<open>ZeroDivisionError\<close> for a subslot of length zero.
\<close>

definition subslots_for :: "sim_args \<Rightarrow> int" where
  "subslots_for a =
     (if atp_enabled a
      then mac_ts_timeslot_length (timeslot_template a)
             div (mac_ts_tx_offset (timeslot_template a) + t_eb a)
      else 1)"

definition JoiningPhaseSimulator_init :: "sim_args \<Rightarrow> sim_error + simulator" where
  "JoiningPhaseSimulator_init a =
     (case check_arguments a of Some e \<Rightarrow> Inl e
      | None \<Rightarrow>
        if atp_enabled a \<and> mac_ts_tx_offset (timeslot_template a) + t_eb a = 0
          then Inl ZeroDivisionError
        else
        let sub = subslots_for a;
            num_slots = slotframe_length a * ebi a
        in
        if scheduling_method a \<in> {ECV, ECH, Minimal6TiSCH} then
          Inr (finish_init a sub (range_step 0 num_slots (slotframe_length a)))
        else if scheduling_method a \<in> {CFASV, CFASH, MAC_BASED_AS} then
          (if num_channels a * ebi a * sub = 0 then Inl ZeroDivisionError
           else
           let num_required_adv_slots = required_adv_slots a sub in
           if num_required_adv_slots > slotframe_length a
             then Inl (NotValidJoiningPhaseSimulatorConfig SlotsLessThanRequired)
           else
           let total_adv_cells = num_required_adv_slots * sub * ebi a * num_channels a in
           case (if scheduling_method a \<noteq> MAC_BASED_AS
                 then check_ids (\<lambda>n. node_type n = FFD) total_adv_cells
                        (nodes (node_group a)) {}
                 else None) of
             Some e \<Rightarrow> Inl e
           | None \<Rightarrow> Inr (finish_init a sub
                (first_slots_of_each_slotframe num_slots (slotframe_length a)
                   num_required_adv_slots)))
        else
          (if (num_channels a - 1) * ebi a * sub = 0 then Inl ZeroDivisionError
           else
           let num_required_adv_slots = required_adv_slots a sub in
           if num_required_adv_slots > slotframe_length a
             then Inl (NotValidJoiningPhaseSimulatorConfig SlotsLessThanRequired)
           else
           let adv_cells_not_for_pan_c =
                 num_required_adv_slots * sub * ebi a * (num_channels a - 1) in
           case (if scheduling_method a \<noteq> EMAC_BASED_AS
                 then check_ids (\<lambda>n. \<not> is_pan_coordinator (node_group a) n
                                      \<and> node_type n = FFD)
                        adv_cells_not_for_pan_c (nodes (node_group a)) {}
                 else None) of
             Some e \<Rightarrow> Inl e
           | None \<Rightarrow> Inr (finish_init a sub
                (first_slots_of_each_slotframe num_slots (slotframe_length a)
                   num_required_adv_slots))))"

section \<open>The EB schedule and the allocators\<close>

text \<open>
  The state that \<open>execute\<close> initialises and \<open>__run_simulation\<close> updates.  Python sets
  of nodes are sets; a dictionary from nodes that is only ever read at the nodes it was
  filled for is a function (\<open>allocated_ch_offset\<close>, \<open>EB_tx_counter\<close> and
  \<open>num_slots_sensed\<close>: their keys are the FFDs of the group, and the nodes they are read
  at are advertisers or sensing nodes, which are the PAN coordinator and nodes of type
  FFD), and a dictionary that is tested for a key is a map (\<open>sync_asn\<close>, and the inner
  dictionaries of \<open>allocated_ch_offset\<close>).  \<open>sensing_nodes\<close> has the cells of the grid
  \<open>sensing_cells\<close> as its keys; reading it at \<open>(0, 1)\<close> when that cell is not a key is
  the error \<open>SensingCellKeyError\<close>.
\<close>

record run_state =
  allocated_ch_offset :: "Node \<Rightarrow> (int \<rightharpoonup> int)"
  joined_nodes :: "Node set"
  advertisers :: "Node set"
  unjoined_nodes :: "Node set"
  sync_asn :: "Node \<rightharpoonup> int"
  EB_tx_counter :: "Node \<Rightarrow> int"
  formation_asn :: "int option"
  scan_start_time :: "Node \<rightharpoonup> int"
  sensing_nodes :: "int \<times> int \<Rightarrow> Node set"
  num_slots_sensed :: "Node \<Rightarrow> int"
  multislotframe_idx :: int
  group_time :: int

text \<open>The SAX hash of \<open>__mbas_allocate_adv_cell\<close> (lines 596 to 609), on Python's integers.\<close>

definition sax_round :: "int \<Rightarrow> int \<Rightarrow> int" where
  "sax_round hash_value byte = hash_value XOR (push_bit 5 hash_value + drop_bit 2 hash_value + byte)"

fun sax_loop :: "int \<Rightarrow> int list \<Rightarrow> int" where
  "sax_loop hash_value [] = hash_value"
| "sax_loop hash_value (word # rest) =
     sax_loop (sax_round (sax_round hash_value (word div 256)) (word mod 256)) rest"

definition sax :: "int list \<Rightarrow> int" where
  "sax words = sax_loop 0 words AND 65535"

definition num_avail_ch_offsets :: "simulator \<Rightarrow> bool \<Rightarrow> int" where
  "num_avail_ch_offsets sim enhanced_version =
     (if \<not> enhanced_version then num_channels (args sim) else num_channels (args sim) - 1)"

definition set_cell :: "run_state \<Rightarrow> Node \<Rightarrow> int \<Rightarrow> int \<Rightarrow> run_state" where
  "set_cell st node adv_subslot_idx ch_offset =
     st\<lparr>allocated_ch_offset :=
          (allocated_ch_offset st)(node := (allocated_ch_offset st node)(adv_subslot_idx \<mapsto> ch_offset))\<rparr>"

text \<open>
  The cell \<open>(adv_subslot_idx, ch_offset)\<close> that each of the three allocators computes
  (lines 577 to 635); the modulus zero is Python's \<open>ZeroDivisionError\<close>.
\<close>

definition cfasv_cell :: "simulator \<Rightarrow> Node \<Rightarrow> bool \<Rightarrow> sim_error + int \<times> int" where
  "cfasv_cell sim node enhanced_version =
     (let n = num_avail_ch_offsets sim enhanced_version;
          m = total_adv_subslots_in_ms sim * n
      in if m = 0 then Inl ZeroDivisionError
         else let adv_cell_idx = node_id node mod m
              in Inr (adv_cell_idx div n,
                      adv_cell_idx mod n + (if enhanced_version then 1 else 0)))"

definition mbas_cell :: "simulator \<Rightarrow> Node \<Rightarrow> bool \<Rightarrow> sim_error + int \<times> int" where
  "mbas_cell sim node enhanced_version =
     (let n = num_avail_ch_offsets sim enhanced_version;
          sax_int = sax (mac_words node);
          m = n * total_adv_subslots_in_ms sim
      in if m = 0 then Inl ZeroDivisionError
         else let adv_cell_idx = sax_int mod m
              in Inr (adv_cell_idx div n,
                      adv_cell_idx mod n + (if enhanced_version then 1 else 0)))"

definition cfash_cell :: "simulator \<Rightarrow> Node \<Rightarrow> bool \<Rightarrow> sim_error + int \<times> int" where
  "cfash_cell sim node enhanced_version =
     (let n = num_avail_ch_offsets sim enhanced_version;
          m = total_adv_subslots_in_ms sim * n
      in if m = 0 then Inl ZeroDivisionError
         else let adv_cell_idx = node_id node mod m
              in Inr (adv_cell_idx mod total_adv_subslots_in_ms sim,
                      adv_cell_idx div total_adv_subslots_in_ms sim
                        + (if enhanced_version then 1 else 0)))"

definition store_cell :: "run_state \<Rightarrow> Node \<Rightarrow> sim_error + int \<times> int \<Rightarrow> sim_error + run_state" where
  "store_cell st node r = (case r of Inl e \<Rightarrow> Inl e | Inr (s, c) \<Rightarrow> Inr (set_cell st node s c))"

definition cfasv_allocate_adv_cell :: "simulator \<Rightarrow> run_state \<Rightarrow> Node \<Rightarrow> bool \<Rightarrow> sim_error + run_state" where
  "cfasv_allocate_adv_cell sim st node enhanced_version =
     store_cell st node (cfasv_cell sim node enhanced_version)"

definition mbas_allocate_adv_cell :: "simulator \<Rightarrow> run_state \<Rightarrow> Node \<Rightarrow> bool \<Rightarrow> sim_error + run_state" where
  "mbas_allocate_adv_cell sim st node enhanced_version =
     store_cell st node (mbas_cell sim node enhanced_version)"

definition cfash_allocate_adv_cell :: "simulator \<Rightarrow> run_state \<Rightarrow> Node \<Rightarrow> bool \<Rightarrow> sim_error + run_state" where
  "cfash_allocate_adv_cell sim st node enhanced_version =
     store_cell st node (cfash_cell sim node enhanced_version)"

text \<open>
  The PAN coordinator of a constructed simulator: \<open>__check_arguments\<close> has refused a
  group without one.
\<close>

definition the_pan_coordinator :: "simulator \<Rightarrow> Node" where
  "the_pan_coordinator sim = the (pan_coordinator (node_group (args sim)))"

definition method_of :: "simulator \<Rightarrow> EBSchedulingMethod" where
  "method_of sim = scheduling_method (args sim)"

text \<open>\<open>__make_scheduling_for_the_pan_coordinator\<close> (lines 637 to 654).\<close>

definition make_scheduling_for_the_pan_coordinator :: "simulator \<Rightarrow> run_state \<Rightarrow> sim_error + run_state" where
  "make_scheduling_for_the_pan_coordinator sim st =
     (if method_of sim = Minimal6TiSCH then Inr (set_cell st (the_pan_coordinator sim) 0 0)
      else if method_of sim = CFASV
        then cfasv_allocate_adv_cell sim st (the_pan_coordinator sim) False
      else if method_of sim = MAC_BASED_AS
        then mbas_allocate_adv_cell sim st (the_pan_coordinator sim) False
      else if method_of sim = CFASH
        then cfash_allocate_adv_cell sim st (the_pan_coordinator sim) False
      else Inr (fold (\<lambda>adv_subslot_idx st'. set_cell st' (the_pan_coordinator sim) adv_subslot_idx 0)
                  (range2 0 (total_adv_subslots_in_ms sim)) st))"

text \<open>The keys of \<open>sensing_nodes\<close> (lines 224 to 228).\<close>

definition sensing_cells :: "simulator \<Rightarrow> (int \<times> int) list" where
  "sensing_cells sim =
     concat (map (\<lambda>adv_subslot_idx. map (\<lambda>ch_offset. (adv_subslot_idx, ch_offset))
                                       (range2 1 (num_channels (args sim))))
                 (range2 0 (total_adv_subslots_in_ms sim)))"

text \<open>The state that \<open>execute\<close> hands to \<open>__run_simulation\<close> (lines 199 to 234).\<close>

definition execute_init :: "simulator \<Rightarrow> sim_error + run_state" where
  "execute_init sim =
     make_scheduling_for_the_pan_coordinator sim
       \<lparr> allocated_ch_offset = (\<lambda>node. Map.empty),
         joined_nodes = {the_pan_coordinator sim},
         advertisers = {the_pan_coordinator sim},
         unjoined_nodes = Set.filter (\<lambda>node. node \<noteq> the_pan_coordinator sim)
                            (set (nodes (node_group (args sim)))),
         sync_asn = [the_pan_coordinator sim \<mapsto> 0],
         EB_tx_counter = (\<lambda>node. 0),
         formation_asn = None,
         scan_start_time = (\<lambda>node. if node \<in> set (nodes (node_group (args sim)))
                                      \<and> node \<noteq> the_pan_coordinator sim
                                   then Some (boot_time node) else None),
         sensing_nodes = (\<lambda>cell. {}),
         num_slots_sensed = (\<lambda>node. 0),
         multislotframe_idx = 0,
         group_time = slot_0_start_time sim \<rparr>"

section \<open>One advertisement subslot of the driver\<close>

text \<open>
  The radio model (\<open>__rx_power\<close>, \<open>__captured_eb\<close>) and the random module are floating
  point computations over random draws.  The model takes their outcomes in one subslot
  as an input \<open>radio\<close>:
  \<^item> \<open>neighbor_heard ch adv obs\<close>: in \<open>__is_a_neighbor_transmitting\<close>, the received power
    of advertiser \<open>adv\<close> at the sensing node \<open>obs\<close> reaches its sensitivity;
  \<^item> \<open>eb_reaches adv node\<close>: in the capture loop, the received power of \<open>adv\<close> at the
    scanning \<open>node\<close> is not below its sensitivity (line 443);
  \<^item> \<open>eb_captured node ebs\<close>: \<open>__captured_eb\<close> returns an EB for \<open>node\<close> on the candidate
    list \<open>ebs\<close> (advertiser and channel offset of every candidate);
  \<^item> \<open>fallback_draws node\<close>, \<open>minimal_draw node\<close>: the raw values behind the calls of
    \<open>randint\<close> at lines 407, 408 and 495.
  Every statement proved for all \<open>radio\<close> holds whatever the random sources deliver.
\<close>

record radio =
  neighbor_heard :: "int \<Rightarrow> Node \<Rightarrow> Node \<Rightarrow> bool"
  eb_reaches :: "Node \<Rightarrow> Node \<Rightarrow> bool"
  eb_captured :: "Node \<Rightarrow> (Node \<times> int) set \<Rightarrow> bool"
  fallback_draws :: "Node \<Rightarrow> int \<times> int"
  minimal_draw :: "Node \<Rightarrow> int"

text \<open>\<open>randint(a, b)\<close> for \<open>a \<le> b\<close>: a value of the inclusive range, chosen by the draw.\<close>

definition randint :: "int \<Rightarrow> int \<Rightarrow> int \<Rightarrow> int" where
  "randint a b draw = a + draw mod (b - a + 1)"

text \<open>Lines 364 to 367.\<close>

definition update_EB_tx_counter :: "int \<Rightarrow> run_state \<Rightarrow> run_state" where
  "update_EB_tx_counter adv_subslot_idx st =
     st\<lparr>EB_tx_counter := (\<lambda>advertiser.
          if advertiser \<in> advertisers st
             \<and> allocated_ch_offset st advertiser adv_subslot_idx \<noteq> None
          then EB_tx_counter st advertiser + 1 else EB_tx_counter st advertiser)\<rparr>"

text \<open>\<open>__is_a_neighbor_transmitting\<close> (lines 662 to 675).\<close>

definition transmitting_neighbors :: "run_state \<Rightarrow> radio \<Rightarrow> Node \<Rightarrow> int \<Rightarrow> int \<Rightarrow> Node set" where
  "transmitting_neighbors st env observer adv_subslot_idx target_ch_offset =
     Set.filter (\<lambda>advertiser. advertiser \<noteq> observer
        \<and> (case allocated_ch_offset st advertiser adv_subslot_idx of None \<Rightarrow> - 1 | Some c \<Rightarrow> c)
            = target_ch_offset
        \<and> neighbor_heard env target_ch_offset advertiser observer) (advertisers st)"

definition is_a_neighbor_transmitting :: "run_state \<Rightarrow> radio \<Rightarrow> Node \<Rightarrow> int \<Rightarrow> int \<Rightarrow> bool" where
  "is_a_neighbor_transmitting st env observer adv_subslot_idx target_ch_offset \<longleftrightarrow>
     transmitting_neighbors st env observer adv_subslot_idx target_ch_offset \<noteq> {}"

text \<open>The cell where the busy nodes of a cell go (lines 392 to 401).\<close>

definition next_cell :: "simulator \<Rightarrow> int \<Rightarrow> int \<Rightarrow> int \<times> int" where
  "next_cell sim adv_subslot_idx ch_offset =
     (if method_of sim = ECV then
        (if ch_offset = num_channels (args sim) - 1 then (adv_subslot_idx + 1, 1)
         else (adv_subslot_idx, ch_offset + 1))
      else
        (if adv_subslot_idx = total_adv_subslots_in_ms sim - 1 then (0, ch_offset + 1)
         else (adv_subslot_idx + 1, ch_offset)))"

definition is_final_cell :: "simulator \<Rightarrow> int \<Rightarrow> int \<Rightarrow> bool" where
  "is_final_cell sim adv_subslot_idx ch_offset \<longleftrightarrow>
     adv_subslot_idx = total_adv_subslots_in_ms sim - 1
   \<and> ch_offset = num_channels (args sim) - 1"

definition nodes_sense_ch_busy :: "run_state \<Rightarrow> radio \<Rightarrow> int \<Rightarrow> int \<Rightarrow> Node set" where
  "nodes_sense_ch_busy st env adv_subslot_idx ch_offset =
     Set.filter (\<lambda>node. is_a_neighbor_transmitting st env node adv_subslot_idx ch_offset)
       (sensing_nodes st (adv_subslot_idx, ch_offset))"

definition fallback_cell :: "simulator \<Rightarrow> radio \<Rightarrow> Node \<Rightarrow> int \<times> int" where
  "fallback_cell sim env node =
     (randint 0 (total_adv_subslots_in_ms sim - 1) (fst (fallback_draws env node)),
      randint 1 (num_channels (args sim) - 1) (snd (fallback_draws env node)))"

text \<open>
  The body of the loop over the channel offsets (lines 374 to 408), on the state and on
  \<open>sensing_nodes_new\<close>.  Each of its inner loops over a set of nodes updates the entries
  of the visited node only, so the order of the visits does not matter and the update is
  written for all nodes of the set at once.
\<close>

definition sense_cell ::
  "simulator \<Rightarrow> radio \<Rightarrow> int \<Rightarrow> int \<Rightarrow> run_state \<times> (int \<times> int \<rightharpoonup> Node set)
     \<Rightarrow> run_state \<times> (int \<times> int \<rightharpoonup> Node set)" where
  "sense_cell sim env adv_subslot_idx ch_offset acc =
     (let st = fst acc; sensing_nodes_new = snd acc;
          nodes_sense_ch = sensing_nodes st (adv_subslot_idx, ch_offset);
          busy = nodes_sense_ch_busy st env adv_subslot_idx ch_offset;
          nodes_sense_ch_free = nodes_sense_ch - busy;
          st1 = st\<lparr> num_slots_sensed := (\<lambda>node. if node \<in> nodes_sense_ch
                         then num_slots_sensed st node + 1 else num_slots_sensed st node),
                     allocated_ch_offset := (\<lambda>node. if node \<in> nodes_sense_ch_free
                         then (allocated_ch_offset st node)(adv_subslot_idx \<mapsto> ch_offset)
                         else allocated_ch_offset st node),
                     sensing_nodes := (sensing_nodes st)((adv_subslot_idx, ch_offset) := {}) \<rparr>
      in if \<not> is_final_cell sim adv_subslot_idx ch_offset
         then (st1, sensing_nodes_new(next_cell sim adv_subslot_idx ch_offset \<mapsto> busy))
         else (st1\<lparr> allocated_ch_offset := (\<lambda>node. if node \<in> busy
                         then (allocated_ch_offset st1 node)
                                (fst (fallback_cell sim env node) \<mapsto> snd (fallback_cell sim env node))
                         else allocated_ch_offset st1 node) \<rparr>,
               sensing_nodes_new))"

text \<open>The sensing of one subslot (lines 370 to 411): the loop, then the flush.\<close>

definition sensing_loop ::
  "simulator \<Rightarrow> radio \<Rightarrow> int \<Rightarrow> run_state \<Rightarrow> run_state \<times> (int \<times> int \<rightharpoonup> Node set)" where
  "sensing_loop sim env adv_subslot_idx st =
     fold (sense_cell sim env adv_subslot_idx) (range2 1 (num_channels (args sim)))
       (st, Map.empty)"

definition flush :: "run_state \<times> (int \<times> int \<rightharpoonup> Node set) \<Rightarrow> run_state" where
  "flush acc =
     (fst acc)\<lparr> sensing_nodes := (\<lambda>key. case snd acc key of
                   None \<Rightarrow> sensing_nodes (fst acc) key | Some v \<Rightarrow> v) \<rparr>"

definition execute_sensing :: "simulator \<Rightarrow> radio \<Rightarrow> int \<Rightarrow> run_state \<Rightarrow> run_state" where
  "execute_sensing sim env adv_subslot_idx st =
     (if method_of sim \<in> {ECV, ECH} then flush (sensing_loop sim env adv_subslot_idx st) else st)"

text \<open>
  The capture loop over the unjoined nodes (lines 416 to 497).  The candidate EBs of a
  node come from the advertisers of the state in which the loop starts: the sets
  \<open>new_joined_nodes\<close> and \<open>new_advertisers\<close> are merged after the loop (lines 499 to 501).
\<close>

definition candidate_ebs :: "run_state \<Rightarrow> radio \<Rightarrow> int \<Rightarrow> Node \<Rightarrow> (Node \<times> int) set" where
  "candidate_ebs st env adv_subslot_idx node =
     (\<lambda>advertiser. (advertiser, the (allocated_ch_offset st advertiser adv_subslot_idx)))
       ` Set.filter (\<lambda>advertiser. allocated_ch_offset st advertiser adv_subslot_idx \<noteq> None
                                    \<and> eb_reaches env advertiser node) (advertisers st)"

definition node_captures :: "run_state \<Rightarrow> radio \<Rightarrow> int \<Rightarrow> Node \<Rightarrow> bool" where
  "node_captures st env adv_subslot_idx node \<longleftrightarrow>
     candidate_ebs st env adv_subslot_idx node \<noteq> {}
   \<and> eb_captured env node (candidate_ebs st env adv_subslot_idx node)"

definition new_joined_nodes :: "run_state \<Rightarrow> radio \<Rightarrow> int \<Rightarrow> Node set" where
  "new_joined_nodes st env adv_subslot_idx =
     Set.filter (node_captures st env adv_subslot_idx) (unjoined_nodes st)"

definition new_advertisers :: "run_state \<Rightarrow> radio \<Rightarrow> int \<Rightarrow> Node set" where
  "new_advertisers st env adv_subslot_idx =
     Set.filter (\<lambda>node. node_type node = FFD) (new_joined_nodes st env adv_subslot_idx)"

text \<open>
  The chain of lines 477 to 497 for one new advertiser: the cell it stores, or \<open>None\<close>
  when it is enrolled for sensing at cell \<open>(0, 1)\<close> (ECV and ECH).
\<close>

definition allocate_new_advertiser :: "simulator \<Rightarrow> radio \<Rightarrow> Node \<Rightarrow> sim_error + (int \<times> int) option" where
  "allocate_new_advertiser sim env node =
     (if method_of sim = CFASV then map_sum id Some (cfasv_cell sim node False)
      else if method_of sim = MAC_BASED_AS then map_sum id Some (mbas_cell sim node False)
      else if method_of sim = CFASH then map_sum id Some (cfash_cell sim node False)
      else if method_of sim = ECFASV then map_sum id Some (cfasv_cell sim node True)
      else if method_of sim = EMAC_BASED_AS then map_sum id Some (mbas_cell sim node True)
      else if method_of sim = ECFASH then map_sum id Some (cfash_cell sim node True)
      else if method_of sim = Minimal6TiSCH
        then Inr (Some (randint 0 (num_adv_slots_in_ms sim - 1) (minimal_draw env node), 0))
      else if (0, 1) \<in> set (sensing_cells sim) then Inr None
      else Inl SensingCellKeyError)"

definition subslot_start_time :: "simulator \<Rightarrow> int \<Rightarrow> int \<Rightarrow> int" where
  "subslot_start_time sim asn j =
     slot_0_start_time sim + asn * mac_ts_timeslot_length (timeslot_template (args sim))
       + j * subslot_length sim"

definition capture_pass :: "simulator \<Rightarrow> radio \<Rightarrow> int \<Rightarrow> int \<Rightarrow> int \<Rightarrow> run_state \<Rightarrow> sim_error + run_state" where
  "capture_pass sim env asn j adv_subslot_idx st =
     (let joined = new_joined_nodes st env adv_subslot_idx;
          promoted = new_advertisers st env adv_subslot_idx
      in if \<exists>node \<in> promoted. allocate_new_advertiser sim env node = Inl ZeroDivisionError
           then Inl ZeroDivisionError
         else if \<exists>node \<in> promoted. allocate_new_advertiser sim env node = Inl SensingCellKeyError
           then Inl SensingCellKeyError
         else Inr (st
           \<lparr> group_time := (if unjoined_nodes st = {} then group_time st
                else subslot_start_time sim asn j + mac_ts_tx_offset (timeslot_template (args sim))),
             sync_asn := (\<lambda>node. if node \<in> joined \<and> sync_asn st node = None
                                   then Some asn else sync_asn st node),
             EB_tx_counter := (\<lambda>node. if node \<in> promoted then 0 else EB_tx_counter st node),
             allocated_ch_offset := (\<lambda>node. if node \<in> promoted
                then (case allocate_new_advertiser sim env node of
                        Inr (Some (s, c)) \<Rightarrow> (allocated_ch_offset st node)(s \<mapsto> c)
                      | _ \<Rightarrow> allocated_ch_offset st node)
                else allocated_ch_offset st node),
             sensing_nodes := (if method_of sim \<in> {ECV, ECH}
                then (sensing_nodes st)((0, 1) := sensing_nodes st (0, 1) \<union> promoted)
                else sensing_nodes st),
             joined_nodes := joined_nodes st \<union> joined,
             advertisers := advertisers st \<union> promoted,
             unjoined_nodes := unjoined_nodes st - joined \<rparr>))"

text \<open>The test of line 514 over the values of \<open>sensing_nodes\<close>.\<close>

definition all_sensing_done :: "simulator \<Rightarrow> run_state \<Rightarrow> bool" where
  "all_sensing_done sim st \<longleftrightarrow> list_all (\<lambda>cell. sensing_nodes st cell = {}) (sensing_cells sim)"

text \<open>
  The end of the loop body (lines 503 to 525) on the state and on the local variable
  \<open>network_formation_time\<close>; the third component is the value that
  \<open>__run_simulation\<close> returns there, if it returns.
\<close>

definition convergence_check ::
  "simulator \<Rightarrow> int \<Rightarrow> int \<Rightarrow> run_state \<Rightarrow> int option \<Rightarrow> run_state \<times> int option \<times> int option" where
  "convergence_check sim asn j st network_formation_time =
     (if unjoined_nodes st = {} then
        (let nft = (case network_formation_time of
                      None \<Rightarrow> subslot_start_time sim asn (j + 1)
                    | Some t \<Rightarrow> t)
         in if method_of sim \<notin> {ECV, ECH} \<or> all_sensing_done sim st
            then (st\<lparr> group_time := subslot_start_time sim asn (j + 1),
                      formation_asn := (case formation_asn st of None \<Rightarrow> Some asn
                                        | Some f \<Rightarrow> Some f) \<rparr>, Some nft, Some nft)
            else (st, Some nft, None))
      else (st, network_formation_time, None))"

text \<open>The body of the inner \<open>for\<close> loop for the subslot \<open>j\<close> of the advertisement slot \<open>i\<close>.\<close>

definition asn_of :: "simulator \<Rightarrow> run_state \<Rightarrow> int \<Rightarrow> int" where
  "asn_of sim st i =
     multislotframe_idx st * num_slots_in_ms sim + adv_slots_pos_in_ms sim ! nat i"

definition subslot_body ::
  "simulator \<Rightarrow> radio \<Rightarrow> int \<Rightarrow> int \<Rightarrow> run_state \<Rightarrow> int option
     \<Rightarrow> sim_error + run_state \<times> int option \<times> int option" where
  "subslot_body sim env i j st network_formation_time =
     (let asn = asn_of sim st i;
          adv_subslot_idx = i * subslots_per_adv_slot sim + j;
          st1 = update_EB_tx_counter adv_subslot_idx st;
          st2 = execute_sensing sim env adv_subslot_idx st1
      in case capture_pass sim env asn j adv_subslot_idx st2 of
           Inl e \<Rightarrow> Inl e
         | Inr st3 \<Rightarrow> Inr (convergence_check sim asn j st3 network_formation_time))"

section \<open>The loops of \<open>__run_simulation\<close>, \<open>execute\<close> and the energy model\<close>

text \<open>
  The three nested loops of \<open>__run_simulation\<close> (lines 353 to 530) as one transition on
  the configuration \<open>(state, i, j, network_formation_time)\<close>: the body of the subslot
  \<open>(i, j)\<close> when both indices are in range, the end of the inner loop otherwise
  (\<open>starting_j = 0\<close> and the next \<open>i\<close>), and the end of the outer loop when \<open>i\<close> has
  reached the number of advertisement slots (\<open>starting_i = 0\<close> and the next
  multi-slotframe).
\<close>

type_synonym loop_config = "run_state \<times> int \<times> int \<times> int option"

datatype outcome = Continue loop_config | Returned int run_state | Failed sim_error

definition loop_step :: "simulator \<Rightarrow> radio \<Rightarrow> loop_config \<Rightarrow> outcome" where
  "loop_step sim env cfg =
     (case cfg of (st, i, j, network_formation_time) \<Rightarrow>
        if i < num_adv_slots_in_ms sim then
          (if j < subslots_per_adv_slot sim then
             (case subslot_body sim env i j st network_formation_time of
                Inl e \<Rightarrow> Failed e
              | Inr (st', nft, Some t) \<Rightarrow> Returned t st'
              | Inr (st', nft, None) \<Rightarrow> Continue (st', i, j + 1, nft))
           else Continue (st, i + 1, 0, network_formation_time))
        else Continue (st\<lparr>multislotframe_idx := multislotframe_idx st + 1\<rparr>, 0, j,
                       network_formation_time))"

text \<open>
  The \<open>while True\<close> loop may run forever, so the run has fuel: \<open>None\<close> is a run that
  has not returned within the given number of transitions.  \<open>envs k\<close> is the radio of
  the \<open>k\<close>-th transition.
\<close>

fun run_loop :: "nat \<Rightarrow> simulator \<Rightarrow> (nat \<Rightarrow> radio) \<Rightarrow> nat \<Rightarrow> loop_config
                   \<Rightarrow> (sim_error + int \<times> run_state) option" where
  "run_loop 0 sim envs k cfg = None"
| "run_loop (Suc fuel) sim envs k cfg =
     (case loop_step sim (envs k) cfg of
        Continue cfg' \<Rightarrow> run_loop fuel sim envs (Suc k) cfg'
      | Returned t st \<Rightarrow> Some (Inr (t, st))
      | Failed e \<Rightarrow> Some (Inl e))"

definition run_simulation :: "nat \<Rightarrow> simulator \<Rightarrow> (nat \<Rightarrow> radio) \<Rightarrow> int \<Rightarrow> run_state
                   \<Rightarrow> (sim_error + int \<times> run_state) option" where
  "run_simulation fuel sim envs starting_adv_subslot st =
     (if subslots_per_adv_slot sim = 0 then Some (Inl ZeroDivisionError)
      else run_loop fuel sim envs 0
             (st, starting_adv_subslot div subslots_per_adv_slot sim,
                  starting_adv_subslot mod subslots_per_adv_slot sim, None))"

text \<open>
  \<open>__total_energy_consumption\<close> (lines 532 to 575).  Python evaluates the formula in
  double precision; the model evaluates the same formula on rationals, so it gives the
  exact value that the floats approximate (and the same value where no rounding
  occurs, as for the sum of no term).  A node without a \<open>sync_asn\<close> is a \<open>KeyError\<close>
  (\<open>None\<close> here).
\<close>

definition seconds :: "int \<Rightarrow> rat" where
  "seconds ns = of_int ns / 1000000000"

definition node_energy :: "simulator \<Rightarrow> run_state \<Rightarrow> Node \<Rightarrow> rat option" where
  "node_energy sim st node =
     (case (sync_asn st node, formation_asn st) of
        (Some sync, Some formation) \<Rightarrow>
          (let rx_A = 2 / 100; tx_A = 24 / 1000; idle_A = 13 / 10 / 10 ^ 6; volts = 37 / 10;
               timeslot = seconds (mac_ts_timeslot_length (timeslot_template (args sim)));
               ec_for_sync = of_int sync * timeslot * rx_A * volts;
               ec_for_EBs = of_int (EB_tx_counter st node) * seconds (t_eb (args sim)) * tx_A * volts;
               idle_slots = formation - sync - EB_tx_counter st node;
               ec_idle = of_int idle_slots * timeslot * idle_A * volts;
               ec_sensing = (if method_of sim \<in> {ECV, ECH}
                  then of_int (num_slots_sensed st node)
                       * seconds (mac_ts_rx_wait (timeslot_template (args sim))) * rx_A * volts
                  else 0)
           in Some (ec_for_sync + ec_for_EBs + ec_idle + ec_sensing))
      | _ \<Rightarrow> None)"

fun energy_loop :: "simulator \<Rightarrow> run_state \<Rightarrow> Node list \<Rightarrow> rat \<Rightarrow> rat option" where
  "energy_loop sim st [] sum_ec = Some sum_ec"
| "energy_loop sim st (node # rest) sum_ec =
     (if method_of sim \<in> {ECV, ECH, ECFASV, ECFASH, EMAC_BASED_AS}
         \<and> node = the_pan_coordinator sim
      then energy_loop sim st rest sum_ec
      else (case node_energy sim st node of
              None \<Rightarrow> None
            | Some ec \<Rightarrow> energy_loop sim st rest (sum_ec + ec)))"

definition total_energy_consumption :: "simulator \<Rightarrow> run_state \<Rightarrow> rat option" where
  "total_energy_consumption sim st = energy_loop sim st (nodes (node_group (args sim))) 0"

text \<open>
  \<open>execute\<close> (lines 189 to 238): the formation time in nanoseconds, the energy and the
  state it leaves; \<open>None\<close> when the run has not returned within the fuel.
\<close>

datatype execute_result =
    Formed int "rat option" run_state
  | Raised sim_error

definition execute :: "nat \<Rightarrow> simulator \<Rightarrow> (nat \<Rightarrow> radio) \<Rightarrow> execute_result option" where
  "execute fuel sim envs =
     (case execute_init sim of
        Inl e \<Rightarrow> Some (Raised e)
      | Inr st \<Rightarrow>
          (case run_simulation fuel sim envs 0 st of
             None \<Rightarrow> None
           | Some (Inl e) \<Rightarrow> Some (Raised e)
           | Some (Inr (total_time, st')) \<Rightarrow>
               Some (Formed total_time (total_energy_consumption sim st') st')))"

section \<open>The channel of an EB transmission\<close>

text \<open>\<open>__channel_calculation\<close> (lines 656 to 660).\<close>

definition channel_calculation :: "simulator \<Rightarrow> int \<Rightarrow> int \<Rightarrow> int option \<Rightarrow> int" where
  "channel_calculation sim ch_offset asn ssn_arg =
     (case ssn_arg of
        Some v \<Rightarrow> (asn + v + ch_offset) mod num_channels (args sim)
      | None \<Rightarrow> (asn + ch_offset) mod num_channels (args sim))"

text \<open>
  Line 361: the \<open>ssn\<close> that the body of the subslot hands to \<open>__captured_eb\<close>.  The
  attribute \<open>__ssn\<close> exists when there is more than one subslot per advertisement slot.
\<close>

definition ssn_of_subslot :: "simulator \<Rightarrow> int \<Rightarrow> int option" where
  "ssn_of_subslot sim adv_subslot_idx =
     (if subslots_per_adv_slot sim > 1
      then (case ssn sim of None \<Rightarrow> None | Some l \<Rightarrow> Some (l ! nat adv_subslot_idx))
      else None)"

text \<open>
  The channel that \<open>__captured_eb\<close> computes (line 777) for a candidate EB of channel
  offset \<open>ch_offset\<close> in the subslot \<open>j\<close> of the advertisement slot \<open>i\<close>.
\<close>

definition eb_channel :: "simulator \<Rightarrow> run_state \<Rightarrow> int \<Rightarrow> int \<Rightarrow> int \<Rightarrow> int" where
  "eb_channel sim st i j ch_offset =
     channel_calculation sim ch_offset (asn_of sim st i)
       (ssn_of_subslot sim (i * subslots_per_adv_slot sim + j))"

text \<open>
  The serial subslot number in the words of the specification: the slotframe that
  contains an advertisement subslot, and the number of advertisement subslots of the
  same slotframe that precede it.
\<close>

definition slotframe_of_subslot :: "simulator \<Rightarrow> int \<Rightarrow> int" where
  "slotframe_of_subslot sim adv_subslot_idx =
     adv_slots_pos_in_ms sim ! nat (adv_subslot_idx div subslots_per_adv_slot sim)
       div slotframe_length (args sim)"

definition position_in_slotframe :: "simulator \<Rightarrow> int \<Rightarrow> int" where
  "position_in_slotframe sim adv_subslot_idx =
     int (length (filter (\<lambda>k. slotframe_of_subslot sim k = slotframe_of_subslot sim adv_subslot_idx)
                         (range2 0 adv_subslot_idx)))"

text \<open>
  Two auxiliary functions for the proofs about \<open>ssn_loop\<close>: the serial numbers of
  one advertisement slot whose first subslot has the number \<open>b\<close>, and the list of
  these first numbers along the list of positions.
\<close>
fun bases :: "int \<Rightarrow> int \<Rightarrow> int \<Rightarrow> int list \<Rightarrow> int list" where
  "bases L sub b (p # q # ps) = b # bases L sub (if p div L = q div L then b + sub else 0) (q # ps)"
| "bases L sub b ps = [b]"

definition ssn_block :: "int \<Rightarrow> int \<Rightarrow> int list" where
  "ssn_block sub b = map (\<lambda>j. b + j) (range2 0 sub)"

section \<open>The advertisement grid in the words of the specification\<close>

text \<open>
  The number \<open>R\<close> of advertisement slots per slotframe as the specification writes it,
  with the ceiling of a quotient of rationals, and the divisor of that quotient.
\<close>

definition slot_divisor :: "sim_args \<Rightarrow> int" where
  "slot_divisor a =
     (if scheduling_method a \<in> {CFASV, CFASH, MAC_BASED_AS}
      then num_channels a * ebi a * subslots_for a
      else (num_channels a - 1) * ebi a * subslots_for a)"

definition R_of_spec :: "sim_args \<Rightarrow> int" where
  "R_of_spec a =
     (if scheduling_method a \<in> {CFASV, CFASH, MAC_BASED_AS}
      then \<lceil>(of_int (num_ffds (node_group a)) :: rat)
             / of_int (num_channels a * ebi a * subslots_for a)\<rceil>
      else \<lceil>(of_int (num_ffds (node_group a) - 1) :: rat)
             / of_int ((num_channels a - 1) * ebi a * subslots_for a)\<rceil>)"

text \<open>
  The number of FFDs that the quotient counts, and the configurations whose quotient
  the float division rounds to zero although the exact quotient is positive.
\<close>

definition ffds_counted :: "sim_args \<Rightarrow> int" where
  "ffds_counted a =
     (if scheduling_method a \<in> {CFASV, CFASH, MAC_BASED_AS}
      then num_ffds (node_group a)
      else num_ffds (node_group a) - 1)"

definition quotient_underflows :: "sim_args \<Rightarrow> bool" where
  "quotient_underflows a \<longleftrightarrow>
     0 < ffds_counted a \<and> ffds_counted a * 2 ^ 1075 \<le> slot_divisor a"

text \<open>The first \<open>R\<close> slots of each of the \<open>e\<close> slotframes of length \<open>L\<close>, in ascending order.\<close>

definition first_R_slots :: "int \<Rightarrow> int \<Rightarrow> int \<Rightarrow> int list" where
  "first_R_slots e L R =
     concat (map (\<lambda>f. map (\<lambda>r. f * L + r) (range2 0 R)) (range2 0 e))"

text \<open>
  The number of advertisement slots that the constructor places in a slotframe: one
  for ECV, ECH and Minimal6TiSCH (line 93), \<open>R\<close> for the (E)CFAS family.
\<close>

definition slots_per_slotframe :: "sim_args \<Rightarrow> int" where
  "slots_per_slotframe a =
     (if scheduling_method a \<in> {ECV, ECH, Minimal6TiSCH} then 1
      else required_adv_slots a (subslots_for a))"

text \<open>
  The id mapping that the constructor validates: its modulus (\<open>total_adv_cells\<close> or
  \<open>adv_cells_not_for_pan_c\<close>) and the nodes it ranges over.
\<close>

definition cells_modulus :: "sim_args \<Rightarrow> int" where
  "cells_modulus a =
     (if scheduling_method a \<in> {CFASV, CFASH, MAC_BASED_AS}
      then required_adv_slots a (subslots_for a) * subslots_for a * ebi a * num_channels a
      else required_adv_slots a (subslots_for a) * subslots_for a * ebi a * (num_channels a - 1))"

definition mapped_node :: "sim_args \<Rightarrow> Node \<Rightarrow> bool" where
  "mapped_node a n \<longleftrightarrow>
     (if scheduling_method a \<in> {CFASV, CFASH, MAC_BASED_AS} then node_type n = FFD
      else \<not> is_pan_coordinator (node_group a) n \<and> node_type n = FFD)"

definition id_mapping_injective :: "sim_args \<Rightarrow> bool" where
  "id_mapping_injective a \<longleftrightarrow>
     inj_on (\<lambda>n. node_id n mod cells_modulus a)
       (Set.filter (mapped_node a) (set (nodes (node_group a))))"

section \<open>Example configurations\<close>

text \<open>The default template of the 2450 MHz band as the record that its construction yields.\<close>

definition default_template :: TimeslotTemplate where
  "default_template = template_of (us defaultTimeslotTemplateFor2450MHzBand_attributes)"

definition ffd :: "int \<Rightarrow> Node" where
  "ffd i = \<lparr> node_id = i, node_type = FFD, boot_time = 0, mac_words = [0, 140, 250, 0, 0, i] \<rparr>"

definition rfd :: "int \<Rightarrow> Node" where
  "rfd i = \<lparr> node_id = i, node_type = RFD, boot_time = 0, mac_words = [0, 140, 250, 0, 0, i] \<rparr>"

text \<open>
  The parameters of the concrete scenarios of the specification: slotframes of 101
  slots, an EBI of one slotframe, EBs of 50 bytes at 250 kbit/s (1792 microseconds), a
  scan of two multi-slotframes, no ATP.
\<close>

definition example_args :: "EBSchedulingMethod \<Rightarrow> int \<Rightarrow> Node list \<Rightarrow> sim_args" where
  "example_args m channels ns =
     \<lparr> node_group = \<lparr> nodes = ns, pan_coordinator = Some (hd ns) \<rparr>,
       scheduling_method = m,
       timeslot_template = default_template,
       slotframe_length = 101,
       eb_length = 50,
       num_channels = channels,
       scan_duration = 2020000000,
       ebi = 1,
       atp_enabled = False,
       t_eb = 1792000 \<rparr>"

text \<open>Three FFDs on two channels under CFASV, and the FFDs 0 and 48 on 16 channels.\<close>

definition three_ffds :: sim_args where
  "three_ffds = example_args CFASV 2 [ffd 0, ffd 1, ffd 2]"

definition ids_0_and_48 :: sim_args where
  "ids_0_and_48 = example_args CFASV 16 [ffd 0, ffd 48]"

text \<open>The three FFDs on two channels with ATP: two subslots per advertisement slot.\<close>

definition three_ffds_atp :: sim_args where
  "three_ffds_atp = three_ffds\<lparr>atp_enabled := True\<rparr>"

text \<open>A state of the driver in its third multi-slotframe; only that index is read.\<close>

definition state_in_msf_2 :: run_state where
  "state_in_msf_2 =
     \<lparr> allocated_ch_offset = (\<lambda>node. Map.empty), joined_nodes = {}, advertisers = {},
       unjoined_nodes = {}, sync_asn = Map.empty, EB_tx_counter = (\<lambda>node. 0),
       formation_asn = None, scan_start_time = Map.empty, sensing_nodes = (\<lambda>cell. {}),
       num_slots_sensed = (\<lambda>node. 0), multislotframe_idx = 2, group_time = 0 \<rparr>"

section \<open>The runs of the driver and their invariants\<close>


text \<open>
  The advertisement subslot whose body runs next from the loop position \<open>(i, j)\<close>, and
  the positions that the loops go through: after the last subslot of an advertisement
  slot \<open>j\<close> is the number of subslots, and after the last advertisement slot \<open>i\<close> is
  the number of advertisement slots.
\<close>

definition next_subslot :: "simulator \<Rightarrow> int \<Rightarrow> int \<Rightarrow> int" where
  "next_subslot sim i j =
     (i * subslots_per_adv_slot sim + j) mod total_adv_subslots_in_ms sim"

definition loop_position :: "simulator \<Rightarrow> int \<Rightarrow> int \<Rightarrow> bool" where
  "loop_position sim i j \<longleftrightarrow>
     0 \<le> i \<and> i \<le> num_adv_slots_in_ms sim \<and> 0 \<le> j \<and> j \<le> subslots_per_adv_slot sim
   \<and> (i = num_adv_slots_in_ms sim \<longrightarrow> j = 0)"

text \<open>No advertiser is unjoined, and an unjoined node holds no advertisement cell.\<close>

definition sets_inv :: "run_state \<Rightarrow> bool" where
  "sets_inv st \<longleftrightarrow>
     advertisers st \<inter> unjoined_nodes st = {}
   \<and> (\<forall>n \<in> unjoined_nodes st. allocated_ch_offset st n = Map.empty)"

text \<open>
  The sensing sets: pairwise disjoint; their members are advertisers without any
  advertisement cell; they are empty outside the grid of sensing cells.
\<close>

definition sensing_disjoint :: "run_state \<Rightarrow> bool" where
  "sensing_disjoint st \<longleftrightarrow>
     (\<forall>c1 c2. c1 \<noteq> c2 \<longrightarrow> sensing_nodes st c1 \<inter> sensing_nodes st c2 = {})"

definition sensing_unallocated :: "run_state \<Rightarrow> bool" where
  "sensing_unallocated st \<longleftrightarrow>
     (\<forall>cell. \<forall>n \<in> sensing_nodes st cell.
        allocated_ch_offset st n = Map.empty \<and> n \<in> advertisers st)"

definition sensing_in_grid :: "simulator \<Rightarrow> run_state \<Rightarrow> bool" where
  "sensing_in_grid sim st \<longleftrightarrow>
     (\<forall>cell. sensing_nodes st cell \<noteq> {} \<longrightarrow> cell \<in> set (sensing_cells sim))"

text \<open>
  Where sensing nodes wait when the body of the subslot \<open>next\<close> is about to run.  Under
  ECV a node that leaves the last channel offset of a subslot waits at offset 1 of the
  following subslot, which is the next to run; all other waiting nodes are at offsets
  above 1 or at the entry cell \<open>(0, 1)\<close>.  Under ECH every waiting node is in the row of
  the next subslot or at the entry cell.
\<close>

definition sensing_position :: "simulator \<Rightarrow> run_state \<Rightarrow> int \<Rightarrow> bool" where
  "sensing_position sim st next \<longleftrightarrow>
     (if method_of sim = ECV
      then (\<forall>s. sensing_nodes st (s, 1) \<noteq> {} \<longrightarrow> s = 0 \<or> s = next)
      else (\<forall>s c. sensing_nodes st (s, c) \<noteq> {} \<longrightarrow> s = next \<or> (s, c) = (0, 1)))"

definition sensing_inv :: "simulator \<Rightarrow> loop_config \<Rightarrow> bool" where
  "sensing_inv sim cfg \<longleftrightarrow>
     (case cfg of (st, i, j, nft) \<Rightarrow>
        sensing_disjoint st \<and> sensing_unallocated st \<and> sensing_in_grid sim st
      \<and> 0 \<le> i \<and> 0 \<le> j
      \<and> ((\<forall>cell. sensing_nodes st cell = {})
         \<or> (loop_position sim i j \<and> sensing_position sim st (next_subslot sim i j))))"

definition driver_inv :: "simulator \<Rightarrow> loop_config \<Rightarrow> bool" where
  "driver_inv sim cfg \<longleftrightarrow>
     sets_inv (fst cfg) \<and> (method_of sim \<in> {ECV, ECH} \<longrightarrow> sensing_inv sim cfg)"

text \<open>
  The invariant of the loop over the channel offsets in the sensing of the subslot
  \<open>s\<close>, relative to the state \<open>st0\<close> in which the loop starts and to the set \<open>C\<close> of the
  offsets already visited.
\<close>

definition sensing_loop_inv ::
  "simulator \<Rightarrow> int \<Rightarrow> run_state \<Rightarrow> int set
     \<Rightarrow> run_state \<times> (int \<times> int \<rightharpoonup> Node set) \<Rightarrow> bool" where
  "sensing_loop_inv sim s st0 C acc \<longleftrightarrow>
     advertisers (fst acc) = advertisers st0
   \<and> unjoined_nodes (fst acc) = unjoined_nodes st0
   \<and> joined_nodes (fst acc) = joined_nodes st0
   \<and> (\<forall>cell. sensing_nodes (fst acc) cell
         = (if fst cell = s \<and> snd cell \<in> C then {} else sensing_nodes st0 cell))
   \<and> (\<forall>key b. snd acc key = Some b \<longrightarrow>
         (\<exists>c \<in> C. key = next_cell sim s c \<and> \<not> is_final_cell sim s c
                  \<and> b \<subseteq> sensing_nodes st0 (s, c)))
   \<and> (\<forall>n. allocated_ch_offset (fst acc) n \<noteq> allocated_ch_offset st0 n \<longrightarrow>
         (\<exists>c \<in> C. n \<in> sensing_nodes st0 (s, c))
         \<and> (\<forall>key b. snd acc key = Some b \<longrightarrow> n \<notin> b))"

section \<open>The MAC-based allocation in the words of the specification\<close>










section \<open>The sensing pass, one channel offset at a time\<close>

text \<open>
  The state in which the loop over the channel offsets (line 374) reaches the offset
  \<open>c\<close> in the pass of the subslot \<open>s\<close>: the offsets \<open>1, ..., c - 1\<close> have been
  processed.  A node of the cell \<open>(s, c)\<close> senses it busy when
  \<open>__is_a_neighbor_transmitting\<close> holds in that state (line 381).
\<close>

definition state_at_offset :: "simulator \<Rightarrow> radio \<Rightarrow> int \<Rightarrow> int \<Rightarrow> run_state \<Rightarrow> run_state" where
  "state_at_offset sim env s c st =
     fst (fold (sense_cell sim env s) (range2 1 c) (st, Map.empty))"

text \<open>
  Three FFDs on three channels under ECV, with one advertisement slot per slotframe;
  a state in which \<open>ffd 1\<close> senses the cell \<open>(0, 1)\<close> that \<open>ffd 2\<close> holds, and a radio
  on which every advertiser is heard.
\<close>

definition ecv_sim :: simulator where
  "ecv_sim = finish_init (example_args ECV 3 [ffd 0, ffd 1, ffd 2]) 1 [0]"

definition sensing_state :: run_state where
  "sensing_state =
     \<lparr> allocated_ch_offset = (\<lambda>node. if node = ffd 0 then [0 \<mapsto> 0]
                                     else if node = ffd 2 then [0 \<mapsto> 1] else Map.empty),
       joined_nodes = {ffd 0, ffd 1, ffd 2}, advertisers = {ffd 0, ffd 1, ffd 2},
       unjoined_nodes = {}, sync_asn = [ffd 0 \<mapsto> 0, ffd 1 \<mapsto> 0, ffd 2 \<mapsto> 0],
       EB_tx_counter = (\<lambda>node. 0), formation_asn = None,
       scan_start_time = Map.empty,
       sensing_nodes = (\<lambda>cell. if cell = (0, 1) then {ffd 1} else {}),
       num_slots_sensed = (\<lambda>node. 0), multislotframe_idx = 0, group_time = 0 \<rparr>"

definition loud_radio :: radio where
  "loud_radio =
     \<lparr> neighbor_heard = (\<lambda>ch advertiser observer. True),
       eb_reaches = (\<lambda>advertiser node. True),
       eb_captured = (\<lambda>node ebs. True),
       fallback_draws = (\<lambda>node. (0, 0)),
       minimal_draw = (\<lambda>node. 0) \<rparr>"

section \<open>The subslot that the driver processes\<close>




section \<open>Properties of the timeslot template\<close>

lemma values_in_range_iff:
  "values_in_range attrs \<longleftrightarrow> (\<forall>(k, v) \<in> set attrs. 0 \<le> v \<and> v \<le> 65535)"
  by (induction attrs rule: values_in_range.induct) auto

lemma bind_read_attribute_Inr:
  "bind_err (read_attribute attrs k) f = Inr t
   \<longleftrightarrow> (\<exists>v. map_of attrs k = Some v \<and> timedelta_in_bounds v \<and> f v = Inr t)"
  by (simp add: bind_err_def read_attribute_def getitem_def split: option.splits)

lemma in_range_in_bounds: "0 \<le> v \<Longrightarrow> v \<le> 65535 \<Longrightarrow> timedelta_in_bounds v"
  by (simp add: timedelta_in_bounds_def)

lemma us_Some: "map_of attrs k = Some v \<Longrightarrow> us attrs k = v"
  by (simp add: us_def)

lemma read_attributes_Inr:
  "read_attributes attrs = Inr t \<longleftrightarrow>
     (\<forall>k \<in> set attribute_names. \<exists>v. map_of attrs k = Some v \<and> timedelta_in_bounds v)
     \<and> t = template_of (us attrs)"
  unfolding read_attributes_def bind_read_attribute_Inr template_of_def attribute_names_def
  by (auto simp: us_Some)

lemma half_duration_compare:
  fixes d e f g i k l :: int
  shows "g * 500 > f * 1000 + l * 1000 - d * 1000 - e * 1000 - i * 1000 - k * 1000
         \<longleftrightarrow> \<not> g \<le> 2 * (f + l - d - e - i - k)"
proof -
  define X where "X = f + l - d - e - i - k"
  have e: "f * 1000 + l * 1000 - d * 1000 - e * 1000 - i * 1000 - k * 1000 = 500 * (2 * X)"
    unfolding X_def by simp
  have "500 * (2 * X) < g * 500 \<longleftrightarrow> 2 * X < g" by simp
  then show ?thesis unfolding e X_def[symmetric] by linarith
qed

lemma refused_record:
  "template_refused
       \<lparr> mac_ts_cca_offset = Timedelta_us a, mac_ts_cca = Timedelta_us b,
         mac_ts_rx_tx = Timedelta_us c, mac_ts_tx_offset = Timedelta_us d,
         mac_ts_max_tx = Timedelta_us e, mac_ts_rx_offset = Timedelta_us f,
         mac_ts_rx_wait = Timedelta_us g, mac_ts_rx_ack_delay = Timedelta_us h,
         mac_ts_tx_ack_delay = Timedelta_us i, mac_ts_ack_wait = Timedelta_us j,
         mac_ts_max_ack = Timedelta_us k, mac_ts_timeslot_length = Timedelta_us l \<rparr>
   \<longleftrightarrow> \<not> (d = a + b + c \<and> 2 * d = 2 * f + g \<and> h \<le> i \<and> i < h + j
        \<and> d + e + h + j \<le> l \<and> d + e + i + k \<le> l \<and> f + g + e + i + k \<le> l + a
        \<and> g \<le> 2 * (f + l - d - e - i - k))"
proof -
  have half: "(g * 1000) div 2 = g * 500" by simp
  have c1: "d * 1000 \<noteq> a * 1000 + b * 1000 + c * 1000 \<longleftrightarrow> \<not> d = a + b + c"
    by linarith
  have c2: "d * 1000 \<noteq> f * 1000 + g * 500 \<longleftrightarrow> \<not> 2 * d = 2 * f + g"
    by linarith
  have c3: "h * 1000 > i * 1000 \<longleftrightarrow> \<not> h \<le> i"
    by linarith
  have c4: "h * 1000 + j * 1000 \<le> i * 1000 \<longleftrightarrow> \<not> i < h + j"
    by linarith
  have c5: "d * 1000 + e * 1000 + h * 1000 + j * 1000 > l * 1000 \<longleftrightarrow> \<not> d + e + h + j \<le> l"
    by linarith
  have c6: "d * 1000 + e * 1000 + i * 1000 + k * 1000 > l * 1000 \<longleftrightarrow> \<not> d + e + i + k \<le> l"
    by linarith
  have c7: "f * 1000 + g * 1000 + e * 1000 + i * 1000 + k * 1000 > l * 1000 + a * 1000
            \<longleftrightarrow> \<not> f + g + e + i + k \<le> l + a"
    by linarith
  note c8 = half_duration_compare[of f l d e i k g]
  show ?thesis
    unfolding template_refused_def Timedelta_us_def
    apply (simp only: TimeslotTemplate.select_convs half)
    apply (simp only: c1 c2 c3 c4 c5 c6 c7 c8 de_Morgan_conj)
    done
qed

lemma template_refused_iff:
  "template_refused (template_of (us attrs)) \<longleftrightarrow> \<not> timing_invariants attrs"
  unfolding template_of_def timing_invariants_def by (rule refused_record)

lemma init_succeeds_iff:
  "construction_succeeds attrs \<longleftrightarrow>
     length attrs \<le> 12 \<and> (\<forall>k \<in> set attribute_names. map_of attrs k \<noteq> None)
     \<and> values_in_range attrs \<and> timing_invariants attrs"
proof (cases "\<forall>k \<in> set attribute_names. \<exists>v. map_of attrs k = Some v \<and> timedelta_in_bounds v")
  case True
  then have r: "read_attributes attrs = Inr (template_of (us attrs))"
    by (simp add: read_attributes_Inr)
  have p: "\<forall>k \<in> set attribute_names. map_of attrs k \<noteq> None"
    using True by fastforce
  show ?thesis
    using p
    by (simp add: construction_succeeds_def TimeslotTemplate_init_def r bind_err_def
        template_refused_iff)
next
  case False
  then have "\<And>t. read_attributes attrs \<noteq> Inr t"
    by (simp add: read_attributes_Inr)
  then obtain e where e: "read_attributes attrs = Inl e"
    by (cases "read_attributes attrs") auto
  have fails: "\<not> construction_succeeds attrs"
    using e by (simp add: construction_succeeds_def TimeslotTemplate_init_def bind_err_def)
  from False obtain k where k: "k \<in> set attribute_names"
    "\<forall>v. map_of attrs k = Some v \<longrightarrow> \<not> timedelta_in_bounds v" by blast
  have "\<not> ((\<forall>k \<in> set attribute_names. map_of attrs k \<noteq> None) \<and> values_in_range attrs)"
  proof
    assume a: "(\<forall>k \<in> set attribute_names. map_of attrs k \<noteq> None) \<and> values_in_range attrs"
    then obtain v where v: "map_of attrs k = Some v" using k(1) by blast
    then have "(k, v) \<in> set attrs" by (rule map_of_SomeD)
    then have "0 \<le> v \<and> v \<le> 65535" using a by (auto simp: values_in_range_iff)
    then have "timedelta_in_bounds v" by (simp add: in_range_in_bounds)
    then show False using k(2) v by simp
  qed
  then show ?thesis using fails by blast
qed

lemma keys_exact:
  assumes d: "distinct (map fst attrs)"
  shows "length attrs \<le> 12 \<and> (\<forall>k \<in> set attribute_names. map_of attrs k \<noteq> None)
         \<longleftrightarrow> set (map fst attrs) = set attribute_names"
proof -
  have c12: "card (set attribute_names) = 12"
    by (simp add: attribute_names_def)
  have len: "length attrs = card (set (map fst attrs))"
    using d by (metis distinct_card length_map)
  have dom: "\<And>k. map_of attrs k \<noteq> None \<longleftrightarrow> k \<in> set (map fst attrs)"
    by (simp add: map_of_eq_None_iff)
  show ?thesis
  proof
    assume a: "length attrs \<le> 12 \<and> (\<forall>k \<in> set attribute_names. map_of attrs k \<noteq> None)"
    then have sub: "set attribute_names \<subseteq> set (map fst attrs)"
      using dom by blast
    have "card (set (map fst attrs)) \<le> card (set attribute_names)"
      using a len c12 by simp
    then show "set (map fst attrs) = set attribute_names"
      using sub card_seteq[of "set (map fst attrs)" "set attribute_names"] by simp
  next
    assume e: "set (map fst attrs) = set attribute_names"
    then show "length attrs \<le> 12 \<and> (\<forall>k \<in> set attribute_names. map_of attrs k \<noteq> None)"
      using len c12 dom by simp
  qed
qed

lemma in_range_iff:
  assumes d: "distinct (map fst attrs)" and e: "set (map fst attrs) = set attribute_names"
  shows "values_in_range attrs \<longleftrightarrow> attributes_in_range attrs"
proof -
  have m: "\<And>k v. (k, v) \<in> set attrs \<longleftrightarrow> map_of attrs k = Some v"
    using d by simp
  have "attributes_in_range attrs \<longleftrightarrow>
        (\<forall>k \<in> set attribute_names. \<exists>v. map_of attrs k = Some v \<and> 0 \<le> v \<and> v \<le> 65535)"
    unfolding attributes_in_range_def list_all_iff
    by (auto split: option.splits)
  also have "\<dots> \<longleftrightarrow> (\<forall>(k, v) \<in> set attrs. 0 \<le> v \<and> v \<le> 65535)"
  proof
    assume a: "\<forall>k \<in> set attribute_names. \<exists>v. map_of attrs k = Some v \<and> 0 \<le> v \<and> v \<le> 65535"
    show "\<forall>(k, v) \<in> set attrs. 0 \<le> v \<and> v \<le> 65535"
    proof (clarify)
      fix k v assume kv: "(k, v) \<in> set attrs"
      then have "k \<in> set attribute_names" using e by force
      with a obtain w where "map_of attrs k = Some w" "0 \<le> w \<and> w \<le> 65535" by blast
      moreover have "map_of attrs k = Some v" using kv m by simp
      ultimately show "0 \<le> v \<and> v \<le> 65535" by simp
    qed
  next
    assume a: "\<forall>(k, v) \<in> set attrs. 0 \<le> v \<and> v \<le> 65535"
    show "\<forall>k \<in> set attribute_names. \<exists>v. map_of attrs k = Some v \<and> 0 \<le> v \<and> v \<le> 65535"
    proof
      fix k assume "k \<in> set attribute_names"
      then have "k \<in> fst ` set attrs" using e by simp
      then obtain v where kv: "(k, v) \<in> set attrs" by force
      then have "map_of attrs k = Some v" using m by simp
      moreover have "0 \<le> v \<and> v \<le> 65535" using a kv by blast
      ultimately show "\<exists>v. map_of attrs k = Some v \<and> 0 \<le> v \<and> v \<le> 65535" by simp
    qed
  qed
  finally show ?thesis
    by (simp add: values_in_range_iff)
qed

lemma default_attributes_facts:
  "distinct (map fst defaultTimeslotTemplateFor2450MHzBand_attributes)"
  "set (map fst defaultTimeslotTemplateFor2450MHzBand_attributes) = set attribute_names"
  "attributes_in_range defaultTimeslotTemplateFor2450MHzBand_attributes"
  "timing_invariants defaultTimeslotTemplateFor2450MHzBand_attributes"
  unfolding defaultTimeslotTemplateFor2450MHzBand_attributes_def attribute_names_def
    attributes_in_range_def timing_invariants_def us_def
  by (simp, auto)

lemma unknown_attributes_facts:
  "length attributes_with_unknown = 13"
  "attributes_in_range attributes_with_unknown"
  "timing_invariants attributes_with_unknown"
  unfolding attributes_with_unknown_def defaultTimeslotTemplateFor2450MHzBand_attributes_def
    attribute_names_def attributes_in_range_def timing_invariants_def us_def
  by simp_all

text \<open>
  Claim C9, as amended.  For every attribute dictionary (distinct keys), the
  construction of a \<open>TimeslotTemplate\<close> succeeds if and only if the dictionary holds
  exactly the twelve attributes and no other key, each of the twelve is an integer in
  the range 0 to 65535, and the seven timing relations hold; in every other case the
  constructor raises an error (the result is \<open>Inl\<close>).
\<close>

theorem TimeslotTemplate_init_succeeds_iff:
  assumes "distinct (map fst attrs)"
  shows "construction_succeeds attrs \<longleftrightarrow>
           set (map fst attrs) = set attribute_names
         \<and> attributes_in_range attrs \<and> timing_invariants attrs"
proof (cases "set (map fst attrs) = set attribute_names")
  case True
  then show ?thesis
    using init_succeeds_iff[of attrs] keys_exact[OF assms] in_range_iff[OF assms True]
    by simp
next
  case False
  then show ?thesis
    using init_succeeds_iff[of attrs] keys_exact[OF assms]
    by simp
qed

theorem TimeslotTemplate_init_succeeds_iff_witness:
  "distinct (map fst defaultTimeslotTemplateFor2450MHzBand_attributes)
   \<and> construction_succeeds defaultTimeslotTemplateFor2450MHzBand_attributes"
  using TimeslotTemplate_init_succeeds_iff
          [of defaultTimeslotTemplateFor2450MHzBand_attributes]
        default_attributes_facts
  by simp

text \<open>
  Claim C9, as stated, fails on a dictionary that holds the twelve attributes of the
  default template and one unknown attribute: each of the twelve is in range and the
  seven relations hold, and the constructor raises (line 32 refuses more than twelve
  entries).
\<close>

theorem TimeslotTemplate_unknown_attribute_counterexample:
  "\<not> (construction_succeeds attributes_with_unknown
        \<longleftrightarrow> attributes_in_range attributes_with_unknown
            \<and> timing_invariants attributes_with_unknown)"
proof -
  have "\<not> construction_succeeds attributes_with_unknown"
    by (simp add: construction_succeeds_def TimeslotTemplate_init_def
        unknown_attributes_facts(1))
  then show ?thesis
    using unknown_attributes_facts(2,3) by simp
qed

section \<open>The advertisement grid and the serial subslot numbers\<close>

lemma last_ssn_block: "sub \<ge> 1 \<Longrightarrow> last (acc @ ssn_block sub b) = b + sub - 1"
  by (simp add: ssn_block_def range2_def last_map upto_rec2[of 0 "sub - 1"])

lemma length_ssn_block: "length (ssn_block sub b) = nat sub"
  by (simp add: ssn_block_def range2_def)

lemma nth_ssn_block: "j < nat sub \<Longrightarrow> ssn_block sub b ! j = b + int j"
  by (simp add: ssn_block_def range2_def)

lemma ssn_loop_bases:
  assumes "sub \<ge> 1"
  shows "ssn_loop L sub (acc @ ssn_block sub b) ps = acc @ concat (map (ssn_block sub) (bases L sub b ps))"
  using assms
proof (induction L sub b ps arbitrary: acc rule: bases.induct)
  case (1 L sub b p q ps)
  let ?b' = "if p div L = q div L then b + sub else 0"
  have l: "last (acc @ ssn_block sub b) + 1 = b + sub"
    using last_ssn_block[OF 1(2)] by simp
  have step: "\<And>X. ssn_loop L sub X (p # q # ps)
        = ssn_loop L sub (X @ ssn_block sub (if p div L = q div L then last X + 1 else 0)) (q # ps)"
    by (simp add: ssn_block_def Let_def)
  have "ssn_loop L sub (acc @ ssn_block sub b) (p # q # ps)
        = ssn_loop L sub ((acc @ ssn_block sub b) @ ssn_block sub ?b') (q # ps)"
    by (simp only: step l)
  also have "\<dots> = (acc @ ssn_block sub b) @ concat (map (ssn_block sub) (bases L sub ?b' (q # ps)))"
    using 1(1)[OF 1(2), of "acc @ ssn_block sub b"] by simp
  finally show ?case by simp
qed simp_all

lemma length_bases: "length (bases L sub b ps) = max 1 (length ps)"
  by (induction L sub b ps rule: bases.induct) auto

lemma nth_bases_0: "bases L sub b ps ! 0 = b"
  by (induction L sub b ps rule: bases.induct) auto

lemma nth_bases_Suc:
  "Suc k < length ps \<Longrightarrow>
   bases L sub b ps ! Suc k =
     (if ps ! k div L = ps ! Suc k div L then bases L sub b ps ! k + sub else 0)"
proof (induction L sub b ps arbitrary: k rule: bases.induct)
  case (1 L sub b p q ps)
  show ?case
  proof (cases k)
    case 0
    then show ?thesis by (simp add: nth_bases_0)
  next
    case (Suc k')
    then show ?thesis using 1(1)[of k'] 1(2) by simp
  qed
qed auto

lemma nth_concat_blocks:
  assumes "\<And>b. length (f b) = n" "k < length bs" "j < n"
  shows "concat (map f bs) ! (k * n + j) = f (bs ! k) ! j"
  using assms(2)
proof (induction bs arbitrary: k)
  case Nil
  then show ?case by simp
next
  case (Cons b bs)
  show ?case
  proof (cases k)
    case 0
    then show ?thesis using assms(1,3) by (simp add: nth_append)
  next
    case (Suc k')
    then have "k' < length bs" using Cons.prems by simp
    then show ?thesis using Cons.IH[of k'] Suc assms(1,3) by (simp add: nth_append)
  qed
qed


lemma range_step_mult:
  assumes "L > 0" "n \<ge> 0"
  shows "range_step (s * L) ((s + n) * L) L = map (\<lambda>f. f * L) [s..s + n - 1]"
  using assms
proof (induction "nat n" arbitrary: s n)
  case 0
  then have "n = 0" by simp
  then show ?case by (simp add: range_step.simps[of "s * L"])
next
  case (Suc m)
  then have n: "n > 0" "m = nat (n - 1)" by auto
  have lt: "s * L < (s + n) * L" using Suc.prems n by (simp add: distrib_right)
  have st: "s * L + L = (s + 1) * L" by (simp add: distrib_right)
  have "range_step (s * L) ((s + n) * L) L = s * L # range_step ((s + 1) * L) ((s + 1 + (n - 1)) * L) L"
    using lt Suc.prems by (subst range_step.simps) (simp add: st)
  also have "range_step ((s + 1) * L) ((s + 1 + (n - 1)) * L) L = map (\<lambda>f. f * L) [s + 1..s + 1 + (n - 1) - 1]"
    using Suc.hyps(1)[of "n - 1" "s + 1"] n Suc.prems by simp
  finally show ?case using n by (simp add: upto_rec1[of s])
qed

lemma upto_shift: "[i..i + n] = map (\<lambda>r. i + r) [0..n]"
proof (induction "nat (n + 1)" arbitrary: n)
  case 0
  then show ?case by simp
next
  case (Suc m)
  then have n: "0 \<le> n" "m = nat (n - 1 + 1)" by auto
  have "[i..i + n] = [i..i + (n - 1)] @ [i + n]"
    using n upto_rec2[of i "i + n"] by (simp add: algebra_simps)
  also have "[i..i + (n - 1)] = map (\<lambda>r. i + r) [0..n - 1]"
    using Suc.hyps(1)[of "n - 1"] n by simp
  finally show ?case using n by (simp add: upto_rec2[of 0 n])
qed

lemma first_slots_blocks:
  assumes "L > 0" "e \<ge> 0"
  shows "first_slots_of_each_slotframe (L * e) L R
         = concat (map (\<lambda>f. map (\<lambda>r. f * L + r) (range2 0 R)) (range2 0 e))"
proof -
  have a: "range_step 0 (L * e) L = map (\<lambda>f. f * L) [0..e - 1]"
    using range_step_mult[OF assms, of 0] by (simp add: mult.commute)
  have b: "range2 i (i + R) = map (\<lambda>r. i + r) (range2 0 R)" for i
  proof -
    have e: "i + R - 1 = i + (R - 1)" by simp
    show ?thesis
      unfolding range2_def e by (rule upto_shift)
  qed
  have "first_slots_of_each_slotframe (L * e) L R
        = concat (map (\<lambda>i. range2 i (i + R)) (map (\<lambda>f. f * L) [0..e - 1]))"
    by (simp only: first_slots_of_each_slotframe_def a)
  also have "\<dots> = concat (map (\<lambda>f. map (\<lambda>r. f * L + r) (range2 0 R)) [0..e - 1])"
    by (simp only: b map_map comp_def)
  finally show ?thesis
    by (simp only: range2_def)
qed

lemma length_concat_blocks:
  assumes "\<And>b. length (f b) = n"
  shows "length (concat (map f bs)) = length bs * n"
  by (induction bs) (simp_all add: assms)

lemma length_first_slots:
  assumes "L > 0" "e \<ge> 0" "R \<ge> 0"
  shows "length (first_slots_of_each_slotframe (L * e) L R) = nat e * nat R"
  unfolding first_slots_blocks[OF assms(1,2)]
  by (subst length_concat_blocks[where n = "nat R"]) (simp_all add: range2_def)

lemma nth_first_slots:
  assumes "L > 0" "e \<ge> 0" "R > 0" "k < nat e * nat R"
  shows "first_slots_of_each_slotframe (L * e) L R ! k = (int k div R) * L + int k mod R"
proof -
  let ?n = "nat R"
  have n: "?n > 0" using assms by simp
  have k: "k = (k div ?n) * ?n + k mod ?n" by simp
  have kd: "k div ?n < nat e"
    using assms(4) n by (simp add: less_mult_imp_div_less)
  have km: "k mod ?n < ?n" using n by simp
  have "first_slots_of_each_slotframe (L * e) L R ! ((k div ?n) * ?n + k mod ?n)
        = map (\<lambda>r. (range2 0 e ! (k div ?n)) * L + r) (range2 0 R) ! (k mod ?n)"
    unfolding first_slots_blocks[OF assms(1,2)]
    by (rule nth_concat_blocks) (use kd km in \<open>simp_all add: range2_def\<close>)
  also have "\<dots> = int (k div ?n) * L + int (k mod ?n)"
    using kd km by (simp add: range2_def)
  also have "int (k div ?n) = int k div R" using assms(3) by (simp add: zdiv_int)
  also have "int (k mod ?n) = int k mod R" using assms(3) by (simp add: zmod_int)
  finally show ?thesis using k by simp
qed

lemma slotframe_of_pos:
  assumes "L > 0" "e \<ge> 0" "R > 0" "R \<le> L" "k < nat e * nat R"
  shows "first_slots_of_each_slotframe (L * e) L R ! k div L = int k div R"
proof -
  have r0: "0 \<le> int k mod R" using assms(3) by simp
  have "int k mod R < R" using assms(3) by simp
  then have r1: "int k mod R < L" using assms(4) by linarith
  have "(L * (int k div R) + int k mod R) div L = int k div R"
    by (rule int_div_pos_eq[OF refl r0 r1])
  then show ?thesis using nth_first_slots[OF assms(1,2,3,5)] by (simp add: mult.commute)
qed

lemma succ_div_mod:
  fixes k R :: int
  assumes "R > 0"
  shows "(if k div R = (k + 1) div R then (k + 1) mod R = k mod R + 1 else (k + 1) mod R = 0)"
proof (cases "k mod R + 1 < R")
  case True
  have e: "k + 1 = R * (k div R) + (k mod R + 1)" by simp
  have r0: "0 \<le> k mod R + 1" using assms by simp
  have m: "(k + 1) mod R = k mod R + 1"
    by (rule int_mod_pos_eq[OF e r0 True])
  have d: "(k + 1) div R = k div R"
    by (rule int_div_pos_eq[OF e r0 True])
  show ?thesis using m d by simp
next
  case False
  have "k mod R < R" using assms by simp
  then have km: "k mod R + 1 = R" using False by linarith
  have "k + 1 = R * (k div R) + (k mod R + 1)" by simp
  then have e: "k + 1 = R * (k div R + 1) + 0" unfolding km by (simp add: distrib_left)
  have m: "(k + 1) mod R = 0"
    by (rule int_mod_pos_eq[OF e]) (use assms in simp_all)
  have d: "(k + 1) div R = k div R + 1"
    by (rule int_div_pos_eq[OF e]) (use assms in simp_all)
  show ?thesis using m d by simp
qed

lemma bases_first_slots:
  assumes "L > 0" "e \<ge> 0" "R > 0" "R \<le> L" "k < nat e * nat R"
  shows "bases L S 0 (first_slots_of_each_slotframe (L * e) L R) ! k = S * (int k mod R)"
  using assms(5)
proof (induction k)
  case 0
  then show ?case by (simp add: nth_bases_0)
next
  case (Suc k)
  let ?pos = "first_slots_of_each_slotframe (L * e) L R"
  have len: "Suc k < length ?pos"
    using Suc.prems length_first_slots[OF assms(1,2), of R] assms(3) by simp
  have k: "k < nat e * nat R" using Suc.prems by simp
  have sf1: "?pos ! k div L = int k div R"
    by (rule slotframe_of_pos[OF assms(1-4) k])
  have sf2: "?pos ! Suc k div L = (int k + 1) div R"
    using slotframe_of_pos[OF assms(1-4) Suc.prems] by (simp add: add.commute)
  have ih: "bases L S 0 ?pos ! k = S * (int k mod R)" using Suc.IH k by simp
  have m: "int (Suc k) mod R = (int k + 1) mod R" by (simp add: add.commute)
  have step: "bases L S 0 ?pos ! Suc k
              = (if int k div R = (int k + 1) div R then S * (int k mod R) + S else 0)"
    by (simp only: nth_bases_Suc[OF len] sf1 sf2 ih)
  show ?case
  proof (cases "int k div R = (int k + 1) div R")
    case True
    then have "(int k + 1) mod R = int k mod R + 1"
      using succ_div_mod[OF assms(3), of "int k"] by simp
    then show ?thesis
      unfolding step m using True by (simp add: distrib_left)
  next
    case False
    then have "(int k + 1) mod R = 0"
      using succ_div_mod[OF assms(3), of "int k"] by simp
    then show ?thesis
      unfolding step m using False by simp
  qed
qed

lemma ssn_loop_nth:
  assumes "L > 0" "e \<ge> 0" "R > 0" "R \<le> L" "S \<ge> 1"
    and i: "0 \<le> i" "i < e * R" and j: "0 \<le> j" "j < S"
  shows "ssn_loop L S (range2 0 S) (first_slots_of_each_slotframe (L * e) L R) ! nat (i * S + j)
         = S * (i mod R) + j"
proof -
  let ?pos = "first_slots_of_each_slotframe (L * e) L R"
  have b0: "range2 0 S = [] @ ssn_block S 0"
    by (simp add: ssn_block_def)
  have eq: "ssn_loop L S (range2 0 S) ?pos = concat (map (ssn_block S) (bases L S 0 ?pos))"
    unfolding b0 using ssn_loop_bases[OF assms(5), of L "[]" 0 ?pos] by simp
  have ki: "nat i < nat e * nat R"
    using i assms(2,3) by (metis nat_less_iff nat_mult_distrib int_nat_eq mult_nonneg_nonneg less_imp_le)
  have lenb: "nat i < length (bases L S 0 ?pos)"
    using ki length_first_slots[OF assms(1,2), of R] assms(3) by (simp add: length_bases)
  have idx: "nat (i * S + j) = nat i * nat S + nat j"
    using i j assms(5) by (simp add: nat_add_distrib nat_mult_distrib)
  have "concat (map (ssn_block S) (bases L S 0 ?pos)) ! (nat i * nat S + nat j)
        = ssn_block S (bases L S 0 ?pos ! nat i) ! nat j"
    by (rule nth_concat_blocks) (use lenb j in \<open>simp_all add: length_ssn_block\<close>)
  also have "\<dots> = bases L S 0 ?pos ! nat i + j"
    using j by (simp add: nth_ssn_block)
  also have "bases L S 0 ?pos ! nat i = S * (int (nat i) mod R)"
    by (rule bases_first_slots[OF assms(1-4) ki])
  finally show ?thesis using i eq idx by simp
qed

lemma block_mod:
  fixes i j R S :: int
  assumes "R > 0" "0 \<le> j" "j < S"
  shows "(i * S + j) mod (R * S) = S * (i mod R) + j"
    and "(i * S + j) div (R * S) = i div R"
proof -
  have S: "S > 0" using assms by linarith
  have e: "i * S + j = (R * S) * (i div R) + (S * (i mod R) + j)"
  proof -
    have g: "(R * q + r) * S + j = (R * S) * q + (S * r + j)" for q r
      by (simp add: algebra_simps)
    show ?thesis using g[of "i div R" "i mod R"] by (simp only: mult_div_mod_eq)
  qed
  have r0: "0 \<le> S * (i mod R) + j"
    using assms S by simp
  have "i mod R \<le> R - 1" using assms(1) pos_mod_bound[of R i] by linarith
  then have "S * (i mod R) \<le> S * (R - 1)" using S by simp
  then have r1: "S * (i mod R) + j < R * S"
    using assms(3) by (simp add: algebra_simps)
  show "(i * S + j) mod (R * S) = S * (i mod R) + j"
    by (rule int_mod_pos_eq[OF e r0 r1])
  show "(i * S + j) div (R * S) = i div R"
    by (rule int_div_pos_eq[OF e r0 r1])
qed

lemma count_same_block:
  fixes M idx :: int
  assumes "M > 0" "idx \<ge> 0"
  shows "int (length (filter (\<lambda>k. k div M = idx div M) (range2 0 idx))) = idx mod M"
proof -
  let ?c = "idx div M"
  have c0: "0 \<le> ?c * M" using assms by (simp add: pos_imp_zdiv_nonneg_iff)
  have c1: "?c * M \<le> idx"
  proof -
    have a: "M * ?c + idx mod M = idx" by (rule mult_div_mod_eq)
    have b: "0 \<le> idx mod M" using assms(1) by simp
    have "M * ?c \<le> idx" using a b by linarith
    then show ?thesis by (simp only: mult.commute[of ?c M])
  qed
  have split: "[0..idx - 1] = [0..?c * M - 1] @ [?c * M..idx - 1]"
  proof (cases "?c * M = 0")
    case True
    have "[0..?c * M - 1] = []" unfolding True by simp
    then show ?thesis unfolding True by simp
  next
    case False
    then have "0 \<le> ?c * M - 1" using c0 by linarith
    then show ?thesis using upto_split2[of 0 "?c * M - 1" "idx - 1"] c1 by simp
  qed
  have f1: "filter (\<lambda>k. k div M = ?c) [0..?c * M - 1] = []"
  proof -
    have "k div M \<noteq> ?c" if "k \<in> set [0..?c * M - 1]" for k
    proof -
      have "k < ?c * M" using that by simp
      have a: "M * (k div M) + k mod M = k" by (rule mult_div_mod_eq)
      have b: "0 \<le> k mod M" using assms(1) by simp
      have le: "M * (k div M) \<le> k" using a b by linarith
      have "k div M < ?c"
      proof (rule ccontr)
        assume "\<not> k div M < ?c"
        then have "?c \<le> k div M" by simp
        then have "M * ?c \<le> M * (k div M)" using assms(1) by (simp add: mult_left_mono)
        then have "?c * M \<le> k" using le by (simp add: mult.commute)
        then show False using \<open>k < ?c * M\<close> by simp
      qed
      then show ?thesis by simp
    qed
    then show ?thesis by (simp add: filter_empty_conv)
  qed
  have f2: "filter (\<lambda>k. k div M = ?c) [?c * M..idx - 1] = [?c * M..idx - 1]"
  proof -
    have "k div M = ?c" if "k \<in> set [?c * M..idx - 1]" for k
    proof -
      have lo: "?c * M \<le> k" and hi: "k < idx" using that by simp_all
      have "(?c * M) div M \<le> k div M" using lo assms(1) by (rule zdiv_mono1)
      then have "?c \<le> k div M" using assms(1) by simp
      moreover have "k div M \<le> ?c" using hi assms(1) by (simp add: zdiv_mono1)
      ultimately show ?thesis by simp
    qed
    then show ?thesis by (simp add: filter_id_conv)
  qed
  have "int (length (filter (\<lambda>k. k div M = ?c) [0..idx - 1])) = idx - ?c * M"
    unfolding split filter_append f1 f2 using c1 by simp
  also have "\<dots> = idx mod M" by (simp add: minus_div_mult_eq_mod)
  finally show ?thesis by (simp add: range2_def)
qed

section \<open>The constructor of the simulator\<close>

lemma init_check_arguments:
  "JoiningPhaseSimulator_init a = Inr sim \<Longrightarrow> check_arguments a = None"
  by (simp add: JoiningPhaseSimulator_init_def split: option.splits)

lemma check_arguments_None_iff:
  "check_arguments a = None \<longleftrightarrow>
     size_of_group (node_group a) \<noteq> 0 \<and> pan_coordinator (node_group a) \<noteq> None
   \<and> slotframe_length a > 0 \<and> 0 < eb_length a \<and> eb_length a \<le> 127 \<and> num_channels a > 0
   \<and> \<not> (scheduling_method a \<in> enhanced_methods
          \<and> list_ex (\<lambda>n. \<not> is_pan_coordinator (node_group a) n \<and> node_type n = FFD)
               (nodes (node_group a))
          \<and> num_channels a = 1)
   \<and> scan_duration a > 0 \<and> ebi a > 0
   \<and> \<not> (scheduling_method a = Minimal6TiSCH \<and> atp_enabled a)"
  unfolding check_arguments_def
  by (simp add: not_le not_less)


lemma init_dynamic:
  assumes "check_arguments a = None" "scheduling_method a \<in> {ECV, ECH, Minimal6TiSCH}"
  shows "JoiningPhaseSimulator_init a =
           (if atp_enabled a \<and> mac_ts_tx_offset (timeslot_template a) + t_eb a = 0
            then Inl ZeroDivisionError
            else Inr (finish_init a (subslots_for a)
                   (range_step 0 (slotframe_length a * ebi a) (slotframe_length a))))"
  unfolding JoiningPhaseSimulator_init_def Let_def assms(1) option.case
  using assms(2) by (simp only: if_True)

lemma init_cfas:
  assumes "check_arguments a = None" "scheduling_method a \<in> {CFASV, CFASH, MAC_BASED_AS}"
  shows "JoiningPhaseSimulator_init a =
           (if atp_enabled a \<and> mac_ts_tx_offset (timeslot_template a) + t_eb a = 0
              then Inl ZeroDivisionError
            else if num_channels a * ebi a * subslots_for a = 0 then Inl ZeroDivisionError
            else if required_adv_slots a (subslots_for a) > slotframe_length a
              then Inl (NotValidJoiningPhaseSimulatorConfig SlotsLessThanRequired)
            else case (if scheduling_method a \<noteq> MAC_BASED_AS
                       then check_ids (\<lambda>n. node_type n = FFD)
                              (required_adv_slots a (subslots_for a) * subslots_for a * ebi a
                                 * num_channels a)
                              (nodes (node_group a)) {}
                       else None) of
                   Some e \<Rightarrow> Inl e
                 | None \<Rightarrow> Inr (finish_init a (subslots_for a)
                     (first_slots_of_each_slotframe (slotframe_length a * ebi a)
                        (slotframe_length a) (required_adv_slots a (subslots_for a)))))"
proof -
  have n: "scheduling_method a \<notin> {ECV, ECH, Minimal6TiSCH}" using assms(2) by auto
  show ?thesis
    unfolding JoiningPhaseSimulator_init_def Let_def assms(1) option.case
    using assms(2) n by (simp only: if_True if_False)
qed

lemma init_ecfas:
  assumes "check_arguments a = None" "scheduling_method a \<in> {ECFASV, ECFASH, EMAC_BASED_AS}"
  shows "JoiningPhaseSimulator_init a =
           (if atp_enabled a \<and> mac_ts_tx_offset (timeslot_template a) + t_eb a = 0
              then Inl ZeroDivisionError
            else if (num_channels a - 1) * ebi a * subslots_for a = 0 then Inl ZeroDivisionError
            else if required_adv_slots a (subslots_for a) > slotframe_length a
              then Inl (NotValidJoiningPhaseSimulatorConfig SlotsLessThanRequired)
            else case (if scheduling_method a \<noteq> EMAC_BASED_AS
                       then check_ids (\<lambda>n. \<not> is_pan_coordinator (node_group a) n
                                              \<and> node_type n = FFD)
                              (required_adv_slots a (subslots_for a) * subslots_for a * ebi a
                                 * (num_channels a - 1))
                              (nodes (node_group a)) {}
                       else None) of
                   Some e \<Rightarrow> Inl e
                 | None \<Rightarrow> Inr (finish_init a (subslots_for a)
                     (first_slots_of_each_slotframe (slotframe_length a * ebi a)
                        (slotframe_length a) (required_adv_slots a (subslots_for a)))))"
proof -
  have n: "scheduling_method a \<notin> {ECV, ECH, Minimal6TiSCH}"
    "scheduling_method a \<notin> {CFASV, CFASH, MAC_BASED_AS}" using assms(2) by auto
  show ?thesis
    unfolding JoiningPhaseSimulator_init_def Let_def assms(1) option.case
    using n by (simp only: if_True if_False)
qed

lemma method_families:
  "m \<in> {ECV, ECH, Minimal6TiSCH} \<or> m \<in> {CFASV, CFASH, MAC_BASED_AS}
   \<or> m \<in> {ECFASV, ECFASH, EMAC_BASED_AS}"
  by (cases m) simp_all


lemma ceil_div_exact:
  assumes "0 < b" "\<not> (0 < a \<and> a * 2 ^ 1075 \<le> b)"
  shows "ceil_div a b = - ((- a) div b)"
proof (cases "\<bar>a\<bar> * 2 ^ 1075 \<le> \<bar>b\<bar>")
  case False
  then show ?thesis by (simp add: ceil_div_def)
next
  case True
  have a: "a \<le> 0"
  proof (rule ccontr)
    assume "\<not> a \<le> 0"
    then have "0 < a \<and> a * 2 ^ 1075 \<le> b" using True assms(1) by simp
    then show False using assms(2) by simp
  qed
  have p: "(1::int) \<le> 2 ^ 1075" by simp
  have "- a * 1 \<le> - a * 2 ^ 1075" using a p by (intro mult_left_mono) simp_all
  then have "- a \<le> b" using True a assms(1) by simp
  moreover have "- a \<noteq> b"
  proof
    assume e: "- a = b"
    then have "b * 2 ^ 1075 \<le> b * 1" using True a assms(1) by simp
    then have "(2::int) ^ 1075 \<le> 1" using assms(1) by (simp only: mult_le_cancel_left_pos)
    then show False by simp
  qed
  ultimately have "- a < b" by simp
  then have "(- a) div b = 0" using a by (simp add: div_pos_pos_trivial)
  then show ?thesis using True by (simp add: ceil_div_def)
qed

lemma ceil_div_ceiling:
  assumes "0 < b" "\<not> (0 < a \<and> a * 2 ^ 1075 \<le> b)"
  shows "ceil_div a b = \<lceil>(of_int a :: rat) / of_int b\<rceil>"
proof -
  have "\<lfloor>(of_int (- a) :: rat) / of_int b\<rfloor> = (- a) div b"
    by (rule floor_divide_of_int_eq)
  then show ?thesis
    unfolding ceil_div_exact[OF assms] by (simp add: ceiling_def)
qed

lemma ceil_div_underflow:
  assumes "0 < a" "a * 2 ^ 1075 \<le> b"
  shows "ceil_div a b = 0"
  using assms by (simp add: ceil_div_def)

lemma slot_divisor_cases:
  "scheduling_method a \<in> {CFASV, CFASH, MAC_BASED_AS} \<Longrightarrow>
     slot_divisor a = num_channels a * ebi a * subslots_for a"
  "scheduling_method a \<notin> {CFASV, CFASH, MAC_BASED_AS} \<Longrightarrow>
     slot_divisor a = (num_channels a - 1) * ebi a * subslots_for a"
  by (simp_all add: slot_divisor_def)

lemma required_is_ceil_div:
  "required_adv_slots a (subslots_for a) = ceil_div (ffds_counted a) (slot_divisor a)"
  by (simp add: required_adv_slots_def ffds_counted_def slot_divisor_def)

lemma R_of_spec_quotient:
  "R_of_spec a = \<lceil>(of_int (ffds_counted a) :: rat) / of_int (slot_divisor a)\<rceil>"
  by (simp add: R_of_spec_def ffds_counted_def slot_divisor_def)

lemma required_is_R_of_spec:
  assumes "slot_divisor a > 0" "\<not> quotient_underflows a"
  shows "required_adv_slots a (subslots_for a) = R_of_spec a"
proof -
  have u: "\<not> (0 < ffds_counted a \<and> ffds_counted a * 2 ^ 1075 \<le> slot_divisor a)"
    using assms(2) by (simp add: quotient_underflows_def)
  show ?thesis
    unfolding required_is_ceil_div R_of_spec_quotient
    by (rule ceil_div_ceiling[OF assms(1) u])
qed

lemma required_underflow:
  assumes "quotient_underflows a"
  shows "required_adv_slots a (subslots_for a) = 0"
proof -
  have "0 < ffds_counted a" "ffds_counted a * 2 ^ 1075 \<le> slot_divisor a"
    using assms by (simp_all add: quotient_underflows_def)
  then show ?thesis
    unfolding required_is_ceil_div by (rule ceil_div_underflow)
qed

lemma first_slots_is_first_R:
  assumes "L > 0" "e \<ge> 0"
  shows "first_slots_of_each_slotframe (L * e) L R = first_R_slots e L R"
  by (simp add: first_slots_blocks[OF assms] first_R_slots_def)

lemma first_slots_one:
  "first_slots_of_each_slotframe n L 1 = range_step 0 n L"
  by (simp add: first_slots_of_each_slotframe_def range2_def)

lemma first_slots_nonpos:
  "R \<le> 0 \<Longrightarrow> first_slots_of_each_slotframe n L R = []"
  by (simp add: first_slots_of_each_slotframe_def range2_def)

lemma if_Inl_eq_Inr: "(if c then Inl e else x) = Inr s \<Longrightarrow> \<not> c \<and> x = Inr s"
  by (cases c) simp_all

lemma case_option_Inl_eq_Inr:
  "(case r of Some e \<Rightarrow> Inl e | None \<Rightarrow> Inr y) = Inr s \<Longrightarrow> r = None \<and> s = y"
  by (cases r) simp_all

lemma init_Inr_finish:
  assumes "JoiningPhaseSimulator_init a = Inr sim"
  shows "sim = finish_init a (subslots_for a)
                 (first_slots_of_each_slotframe (slotframe_length a * ebi a) (slotframe_length a)
                    (slots_per_slotframe a))
         \<and> slots_per_slotframe a \<le> slotframe_length a"
proof -
  note c = init_check_arguments[OF assms]
  have L: "slotframe_length a > 0" using c by (simp add: check_arguments_None_iff)
  consider (dyn) "scheduling_method a \<in> {ECV, ECH, Minimal6TiSCH}"
    | (cfas) "scheduling_method a \<in> {CFASV, CFASH, MAC_BASED_AS}"
    | (ecfas) "scheduling_method a \<in> {ECFASV, ECFASH, EMAC_BASED_AS}"
    using method_families by blast
  then show ?thesis
  proof cases
    case dyn
    have s: "slots_per_slotframe a = 1" using dyn by (simp only: slots_per_slotframe_def if_True)
    have e: "(Inr (finish_init a (subslots_for a)
                  (range_step 0 (slotframe_length a * ebi a) (slotframe_length a)))
              :: sim_error + simulator) = Inr sim"
    proof -
      have x: "(if atp_enabled a \<and> mac_ts_tx_offset (timeslot_template a) + t_eb a = 0
            then Inl ZeroDivisionError
            else Inr (finish_init a (subslots_for a)
                   (range_step 0 (slotframe_length a * ebi a) (slotframe_length a)))) = Inr sim"
        using assms by (simp only: init_dynamic[OF c dyn])
      show ?thesis by (rule conjunct2[OF if_Inl_eq_Inr[OF x]])
    qed
    have f: "sim = finish_init a (subslots_for a)
                  (range_step 0 (slotframe_length a * ebi a) (slotframe_length a))"
      using e[symmetric] by (simp only: sum.inject)
    have "1 \<le> slotframe_length a" using L by linarith
    then show ?thesis unfolding s first_slots_one using f by (intro conjI)
  next
    case cfas
    have n: "scheduling_method a \<notin> {ECV, ECH, Minimal6TiSCH}" using cfas by auto
    have s: "slots_per_slotframe a = required_adv_slots a (subslots_for a)"
      using n by (simp only: slots_per_slotframe_def if_False)
    note x1 = if_Inl_eq_Inr[OF assms[unfolded init_cfas[OF c cfas]]]
    note x2 = if_Inl_eq_Inr[OF conjunct2[OF x1]]
    note x3 = if_Inl_eq_Inr[OF conjunct2[OF x2]]
    note x4 = case_option_Inl_eq_Inr[OF conjunct2[OF x3]]
    have "required_adv_slots a (subslots_for a) \<le> slotframe_length a"
      using conjunct1[OF x3] by linarith
    then show ?thesis unfolding s using conjunct2[OF x4] by (intro conjI)
  next
    case ecfas
    have n: "scheduling_method a \<notin> {ECV, ECH, Minimal6TiSCH}" using ecfas by auto
    have s: "slots_per_slotframe a = required_adv_slots a (subslots_for a)"
      using n by (simp only: slots_per_slotframe_def if_False)
    note x1 = if_Inl_eq_Inr[OF assms[unfolded init_ecfas[OF c ecfas]]]
    note x2 = if_Inl_eq_Inr[OF conjunct2[OF x1]]
    note x3 = if_Inl_eq_Inr[OF conjunct2[OF x2]]
    note x4 = case_option_Inl_eq_Inr[OF conjunct2[OF x3]]
    have "required_adv_slots a (subslots_for a) \<le> slotframe_length a"
      using conjunct1[OF x3] by linarith
    then show ?thesis unfolding s using conjunct2[OF x4] by (intro conjI)
  qed
qed

lemma check_ids_results:
  "check_ids sel m ns temp = None \<or> check_ids sel m ns temp = Some ZeroDivisionError
   \<or> check_ids sel m ns temp = Some (NotValidJoiningPhaseSimulatorConfig NotOneToOne)"
  by (induction ns arbitrary: temp) simp_all

lemma check_ids_None_iff:
  assumes "m \<noteq> 0 \<or> filter sel ns = []"
  shows "check_ids sel m ns temp = None \<longleftrightarrow>
           distinct (map (\<lambda>n. node_id n mod m) (filter sel ns))
         \<and> (\<lambda>n. node_id n mod m) ` set (filter sel ns) \<inter> temp = {}"
  using assms
proof (induction ns arbitrary: temp)
  case Nil
  then show ?case by simp
next
  case (Cons n ns)
  show ?case
  proof (cases "sel n")
    case False
    then show ?thesis using Cons.IH[of temp] Cons.prems by simp
  next
    case True
    then have m: "m \<noteq> 0" using Cons.prems by simp
    show ?thesis
    proof (cases "node_id n mod m \<in> temp")
      case t: True
      then show ?thesis using True m by auto
    next
      case f: False
      have "check_ids sel m (n # ns) temp = check_ids sel m ns (insert (node_id n mod m) temp)"
        using True m f by simp
      then show ?thesis
        using Cons.IH[of "insert (node_id n mod m) temp"] m True f by auto
    qed
  qed
qed

lemma check_ids_not_zero_division:
  assumes "m \<noteq> 0 \<or> filter sel ns = []"
  shows "check_ids sel m ns temp \<noteq> Some ZeroDivisionError"
  using assms
  by (induction ns arbitrary: temp) (auto split: if_splits)

lemma check_ids_inj_on:
  assumes "m \<noteq> 0 \<or> filter sel ns = []" "distinct ns"
  shows "check_ids sel m ns {} = None \<longleftrightarrow>
           inj_on (\<lambda>n. node_id n mod m) (Set.filter sel (set ns))"
proof -
  have s: "set (filter sel ns) = Set.filter sel (set ns)" by auto
  have d: "distinct (filter sel ns)" using assms(2) by simp
  show ?thesis
    unfolding check_ids_None_iff[OF assms(1)] distinct_map s[symmetric]
    using d by simp
qed

lemma ceil_div_pos:
  assumes "b > 0" "a \<ge> 1" "\<not> (0 < a \<and> a * 2 ^ 1075 \<le> b)"
  shows "ceil_div a b \<ge> 1"
proof -
  have "(- a) div b < 0" using assms(1,2) by (simp add: pos_imp_zdiv_neg_iff)
  then show ?thesis unfolding ceil_div_exact[OF assms(1,3)] by simp
qed

lemma wf_group_distinct: "wf_group g \<Longrightarrow> distinct (nodes g)"
  by (simp add: wf_group_def distinct_map)

lemma length_filter_ge_2:
  assumes "x \<in> set xs" "y \<in> set xs" "x \<noteq> y" "P x" "P y"
  shows "length (filter P xs) \<ge> 2"
proof -
  have "{x, y} \<subseteq> set (filter P xs)" using assms by simp
  then have "card {x, y} \<le> card (set (filter P xs))" by (simp add: card_mono)
  moreover have "card {x, y} = 2" using assms(3) by simp
  moreover have "card (set (filter P xs)) \<le> length (filter P xs)" by (rule card_length)
  ultimately show ?thesis by linarith
qed

lemma num_ffds_ge_1:
  assumes "n \<in> set (nodes g)" "node_type n = FFD"
  shows "num_ffds g \<ge> 1"
proof -
  have "n \<in> set (filter (\<lambda>n. node_type n = FFD) (nodes g))" using assms by simp
  then have "filter (\<lambda>n. node_type n = FFD) (nodes g) \<noteq> []"
    by (metis empty_iff empty_set)
  then show ?thesis unfolding num_ffds_def by (simp add: Suc_le_eq)
qed

lemma num_ffds_ge_2:
  assumes "wf_group g" "pan_coordinator g = Some p" "n \<in> set (nodes g)" "node_type n = FFD"
    "n \<noteq> p"
  shows "num_ffds g \<ge> 2"
proof -
  have p: "p \<in> set (nodes g)" "node_type p = FFD"
    using assms(1,2) by (simp_all add: wf_group_def)
  have "length (filter (\<lambda>n. node_type n = FFD) (nodes g)) \<ge> 2"
    by (rule length_filter_ge_2[OF assms(3) p(1) assms(5) assms(4) p(2)])
  then show ?thesis unfolding num_ffds_def by simp
qed

lemma mapped_node_cfas:
  "scheduling_method a \<in> {CFASV, CFASH, MAC_BASED_AS} \<Longrightarrow>
   mapped_node a = (\<lambda>n. node_type n = FFD)"
  by (rule ext) (simp only: mapped_node_def if_True)

lemma mapped_node_ecfas:
  "scheduling_method a \<notin> {CFASV, CFASH, MAC_BASED_AS} \<Longrightarrow>
   mapped_node a = (\<lambda>n. \<not> is_pan_coordinator (node_group a) n \<and> node_type n = FFD)"
  by (rule ext) (simp only: mapped_node_def if_False)

lemma slot_divisor_subslot:
  assumes "slot_divisor a \<noteq> 0"
  shows "\<not> (atp_enabled a \<and> mac_ts_tx_offset (timeslot_template a) + t_eb a = 0)"
proof
  assume x: "atp_enabled a \<and> mac_ts_tx_offset (timeslot_template a) + t_eb a = 0"
  then have "subslots_for a = 0" by (simp add: subslots_for_def)
  then have "slot_divisor a = 0" by (simp add: slot_divisor_def)
  then show False using assms by simp
qed

lemma init_cfas_family:
  assumes c: "check_arguments a = None"
    and m: "scheduling_method a \<notin> {ECV, ECH, Minimal6TiSCH}"
    and d: "slot_divisor a \<noteq> 0"
  shows "JoiningPhaseSimulator_init a =
           (if required_adv_slots a (subslots_for a) > slotframe_length a
              then Inl (NotValidJoiningPhaseSimulatorConfig SlotsLessThanRequired)
            else case (if scheduling_method a \<notin> {MAC_BASED_AS, EMAC_BASED_AS}
                       then check_ids (mapped_node a) (cells_modulus a) (nodes (node_group a)) {}
                       else None) of
                   Some e \<Rightarrow> Inl e
                 | None \<Rightarrow> Inr (finish_init a (subslots_for a)
                     (first_slots_of_each_slotframe (slotframe_length a * ebi a)
                        (slotframe_length a) (required_adv_slots a (subslots_for a)))))"
proof -
  note z = slot_divisor_subslot[OF d]
  consider (cfas) "scheduling_method a \<in> {CFASV, CFASH, MAC_BASED_AS}"
    | (ecfas) "scheduling_method a \<in> {ECFASV, ECFASH, EMAC_BASED_AS}"
    using method_families[of "scheduling_method a"] m by blast
  then show ?thesis
  proof cases
    case cfas
    have d': "num_channels a * ebi a * subslots_for a \<noteq> 0"
      using d cfas by (simp add: slot_divisor_def)
    have cm: "cells_modulus a = required_adv_slots a (subslots_for a) * subslots_for a * ebi a
                 * num_channels a"
      using cfas by (simp add: cells_modulus_def)
    have e: "scheduling_method a \<notin> {MAC_BASED_AS, EMAC_BASED_AS}
              \<longleftrightarrow> scheduling_method a \<noteq> MAC_BASED_AS"
      using cfas by auto
    show ?thesis
      unfolding init_cfas[OF c cfas] mapped_node_cfas[OF cfas] cm e
      using z d' by (simp only: if_False)
  next
    case ecfas
    have n: "scheduling_method a \<notin> {CFASV, CFASH, MAC_BASED_AS}" using ecfas by auto
    have d': "(num_channels a - 1) * ebi a * subslots_for a \<noteq> 0"
      using d n by (simp add: slot_divisor_def)
    have cm: "cells_modulus a = required_adv_slots a (subslots_for a) * subslots_for a * ebi a
                 * (num_channels a - 1)"
      using n by (simp add: cells_modulus_def)
    have e: "scheduling_method a \<notin> {MAC_BASED_AS, EMAC_BASED_AS}
              \<longleftrightarrow> scheduling_method a \<noteq> EMAC_BASED_AS"
      using ecfas by auto
    show ?thesis
      unfolding init_ecfas[OF c ecfas] mapped_node_ecfas[OF n] cm e
      using z d' by (simp only: if_False)
  qed
qed

lemma cells_modulus_divisor:
  "cells_modulus a = required_adv_slots a (subslots_for a) * slot_divisor a"
  by (simp add: cells_modulus_def slot_divisor_def)

lemma required_ge_1:
  assumes c: "check_arguments a = None" and d: "slot_divisor a > 0"
    and w: "wf_group (node_group a)"
    and u: "\<not> quotient_underflows a"
    and n: "n \<in> set (nodes (node_group a))" "mapped_node a n"
  shows "required_adv_slots a (subslots_for a) \<ge> 1"
proof -
  have u': "\<not> (0 < ffds_counted a \<and> ffds_counted a * 2 ^ 1075 \<le> slot_divisor a)"
    using u by (simp add: quotient_underflows_def)
  have "ffds_counted a \<ge> 1"
  proof (cases "scheduling_method a \<in> {CFASV, CFASH, MAC_BASED_AS}")
    case True
    have f: "node_type n = FFD" using n(2) True by (simp add: mapped_node_def)
    show ?thesis using num_ffds_ge_1[OF n(1) f] True by (simp add: ffds_counted_def)
  next
    case False
    have f: "\<not> is_pan_coordinator (node_group a) n \<and> node_type n = FFD"
      using n(2) False by (simp add: mapped_node_def)
    obtain p where p: "pan_coordinator (node_group a) = Some p"
      using c by (auto simp: check_arguments_None_iff)
    have np: "n \<noteq> p" using f p by (auto simp: is_pan_coordinator_def)
    have "num_ffds (node_group a) \<ge> 2"
      using num_ffds_ge_2[OF w p n(1) _ np] f by simp
    then show ?thesis using False by (simp add: ffds_counted_def)
  qed
  then show ?thesis
    unfolding required_is_ceil_div by (rule ceil_div_pos[OF d _ u'])
qed

lemma cells_modulus_ok:
  assumes c: "check_arguments a = None" and d: "slot_divisor a > 0"
    and w: "wf_group (node_group a)"
    and u: "\<not> quotient_underflows a"
  shows "cells_modulus a \<noteq> 0 \<or> filter (mapped_node a) (nodes (node_group a)) = []"
proof (cases "filter (mapped_node a) (nodes (node_group a)) = []")
  case True
  then show ?thesis by simp
next
  case False
  then obtain n where n: "n \<in> set (nodes (node_group a))" "mapped_node a n"
    by (auto simp: filter_empty_conv)
  have "required_adv_slots a (subslots_for a) \<ge> 1"
    by (rule required_ge_1[OF c d w u n])
  then show ?thesis unfolding cells_modulus_divisor using d by simp
qed

lemma init_slots_error_iff:
  assumes c: "check_arguments a = None"
    and m: "scheduling_method a \<notin> {ECV, ECH, Minimal6TiSCH}"
    and d: "slot_divisor a \<noteq> 0"
  shows "JoiningPhaseSimulator_init a = Inl (NotValidJoiningPhaseSimulatorConfig SlotsLessThanRequired)
         \<longleftrightarrow> required_adv_slots a (subslots_for a) > slotframe_length a"
proof (cases "required_adv_slots a (subslots_for a) > slotframe_length a")
  case True
  then show ?thesis unfolding init_cfas_family[OF c m d] by simp
next
  case False
  let ?r = "if scheduling_method a \<notin> {MAC_BASED_AS, EMAC_BASED_AS}
            then check_ids (mapped_node a) (cells_modulus a) (nodes (node_group a)) {} else None"
  have r: "?r = None \<or> ?r = Some ZeroDivisionError
           \<or> ?r = Some (NotValidJoiningPhaseSimulatorConfig NotOneToOne)"
    using check_ids_results[of "mapped_node a" "cells_modulus a" "nodes (node_group a)" "{}"]
    by (cases "scheduling_method a \<notin> {MAC_BASED_AS, EMAC_BASED_AS}") simp_all
  have "JoiningPhaseSimulator_init a
         \<noteq> Inl (NotValidJoiningPhaseSimulatorConfig SlotsLessThanRequired)"
    unfolding init_cfas_family[OF c m d] using False r
    by (cases ?r) auto
  then show ?thesis using False by simp
qed

lemma init_outcomes:
  assumes c: "check_arguments a = None"
    and m: "scheduling_method a \<notin> {ECV, ECH, Minimal6TiSCH}"
    and d: "slot_divisor a > 0"
    and w: "wf_group (node_group a)"
    and u: "\<not> quotient_underflows a"
  shows "required_adv_slots a (subslots_for a) > slotframe_length a \<Longrightarrow>
           JoiningPhaseSimulator_init a
             = Inl (NotValidJoiningPhaseSimulatorConfig SlotsLessThanRequired)"
    and "required_adv_slots a (subslots_for a) \<le> slotframe_length a \<Longrightarrow>
         scheduling_method a \<notin> {MAC_BASED_AS, EMAC_BASED_AS} \<Longrightarrow>
         \<not> id_mapping_injective a \<Longrightarrow>
           JoiningPhaseSimulator_init a = Inl (NotValidJoiningPhaseSimulatorConfig NotOneToOne)"
    and "required_adv_slots a (subslots_for a) \<le> slotframe_length a \<Longrightarrow>
         scheduling_method a \<in> {MAC_BASED_AS, EMAC_BASED_AS} \<or> id_mapping_injective a \<Longrightarrow>
           JoiningPhaseSimulator_init a
             = Inr (finish_init a (subslots_for a)
                 (first_slots_of_each_slotframe (slotframe_length a * ebi a)
                    (slotframe_length a) (required_adv_slots a (subslots_for a))))"
proof -
  have d0: "slot_divisor a \<noteq> 0" using d by simp
  let ?k = "check_ids (mapped_node a) (cells_modulus a) (nodes (node_group a)) {}"
  note ok = cells_modulus_ok[OF c d w u]
  have inj: "?k = None \<longleftrightarrow> id_mapping_injective a"
    unfolding id_mapping_injective_def
    by (rule check_ids_inj_on[OF ok wf_group_distinct[OF w]])
  have nz: "?k \<noteq> Some ZeroDivisionError"
    by (rule check_ids_not_zero_division[OF ok])
  have res: "?k = None \<or> ?k = Some (NotValidJoiningPhaseSimulatorConfig NotOneToOne)"
    using check_ids_results[of "mapped_node a" "cells_modulus a" "nodes (node_group a)" "{}"] nz
    by blast
  show "required_adv_slots a (subslots_for a) > slotframe_length a \<Longrightarrow>
           JoiningPhaseSimulator_init a
             = Inl (NotValidJoiningPhaseSimulatorConfig SlotsLessThanRequired)"
    unfolding init_cfas_family[OF c m d0] by simp
  show "required_adv_slots a (subslots_for a) \<le> slotframe_length a \<Longrightarrow>
         scheduling_method a \<notin> {MAC_BASED_AS, EMAC_BASED_AS} \<Longrightarrow>
         \<not> id_mapping_injective a \<Longrightarrow>
           JoiningPhaseSimulator_init a = Inl (NotValidJoiningPhaseSimulatorConfig NotOneToOne)"
  proof -
    assume r: "required_adv_slots a (subslots_for a) \<le> slotframe_length a"
      and i: "scheduling_method a \<notin> {MAC_BASED_AS, EMAC_BASED_AS}"
      and n: "\<not> id_mapping_injective a"
    have nr: "\<not> required_adv_slots a (subslots_for a) > slotframe_length a" using r by simp
    have k: "?k = Some (NotValidJoiningPhaseSimulatorConfig NotOneToOne)"
      using res inj n by blast
    show ?thesis
      unfolding init_cfas_family[OF c m d0] using nr i k by simp
  qed
  show "required_adv_slots a (subslots_for a) \<le> slotframe_length a \<Longrightarrow>
         scheduling_method a \<in> {MAC_BASED_AS, EMAC_BASED_AS} \<or> id_mapping_injective a \<Longrightarrow>
           JoiningPhaseSimulator_init a
             = Inr (finish_init a (subslots_for a)
                 (first_slots_of_each_slotframe (slotframe_length a * ebi a)
                    (slotframe_length a) (required_adv_slots a (subslots_for a))))"
  proof -
    assume r: "required_adv_slots a (subslots_for a) \<le> slotframe_length a"
      and i: "scheduling_method a \<in> {MAC_BASED_AS, EMAC_BASED_AS} \<or> id_mapping_injective a"
    have nr: "\<not> required_adv_slots a (subslots_for a) > slotframe_length a" using r by simp
    have k: "(if scheduling_method a \<notin> {MAC_BASED_AS, EMAC_BASED_AS} then ?k else None) = None"
      using i inj by auto
    show ?thesis
      unfolding init_cfas_family[OF c m d0] k using nr by simp
  qed
qed

lemma init_constructed_iff:
  assumes c: "check_arguments a = None"
    and m: "scheduling_method a \<notin> {ECV, ECH, Minimal6TiSCH}"
    and d: "slot_divisor a > 0"
    and w: "wf_group (node_group a)"
    and u: "\<not> quotient_underflows a"
  shows "(\<exists>sim. JoiningPhaseSimulator_init a = Inr sim) \<longleftrightarrow>
           required_adv_slots a (subslots_for a) \<le> slotframe_length a
           \<and> (scheduling_method a \<in> {MAC_BASED_AS, EMAC_BASED_AS} \<or> id_mapping_injective a)"
proof -
  note o = init_outcomes[OF c m d w u]
  consider (slots) "required_adv_slots a (subslots_for a) > slotframe_length a"
    | (ids) "required_adv_slots a (subslots_for a) \<le> slotframe_length a"
        "scheduling_method a \<notin> {MAC_BASED_AS, EMAC_BASED_AS}" "\<not> id_mapping_injective a"
    | (built) "required_adv_slots a (subslots_for a) \<le> slotframe_length a"
        "scheduling_method a \<in> {MAC_BASED_AS, EMAC_BASED_AS} \<or> id_mapping_injective a"
    by fastforce
  then show ?thesis
  proof cases
    case slots
    have "\<not> (\<exists>sim. JoiningPhaseSimulator_init a = Inr sim)"
      unfolding o(1)[OF slots] by simp
    then show ?thesis using slots by simp
  next
    case ids
    have "\<not> (\<exists>sim. JoiningPhaseSimulator_init a = Inr sim)"
      unfolding o(2)[OF ids] by simp
    then show ?thesis using ids by blast
  next
    case built
    have "\<exists>sim. JoiningPhaseSimulator_init a = Inr sim"
      using o(3)[OF built] by (rule exI)
    then show ?thesis using built by blast
  qed
qed

lemma init_config_error_iff:
  assumes c: "check_arguments a = None"
    and m: "scheduling_method a \<notin> {ECV, ECH, Minimal6TiSCH}"
    and d: "slot_divisor a > 0"
    and w: "wf_group (node_group a)"
    and u: "\<not> quotient_underflows a"
  shows "(\<exists>r. JoiningPhaseSimulator_init a = Inl (NotValidJoiningPhaseSimulatorConfig r)) \<longleftrightarrow>
           required_adv_slots a (subslots_for a) > slotframe_length a
           \<or> (scheduling_method a \<notin> {MAC_BASED_AS, EMAC_BASED_AS} \<and> \<not> id_mapping_injective a)"
proof -
  note o = init_outcomes[OF c m d w u]
  consider (slots) "required_adv_slots a (subslots_for a) > slotframe_length a"
    | (ids) "required_adv_slots a (subslots_for a) \<le> slotframe_length a"
        "scheduling_method a \<notin> {MAC_BASED_AS, EMAC_BASED_AS}" "\<not> id_mapping_injective a"
    | (built) "required_adv_slots a (subslots_for a) \<le> slotframe_length a"
        "scheduling_method a \<in> {MAC_BASED_AS, EMAC_BASED_AS} \<or> id_mapping_injective a"
    by fastforce
  then show ?thesis
  proof cases
    case slots
    have "\<exists>r. JoiningPhaseSimulator_init a = Inl (NotValidJoiningPhaseSimulatorConfig r)"
      using o(1)[OF slots] by (rule exI)
    then show ?thesis using slots by simp
  next
    case ids
    have "\<exists>r. JoiningPhaseSimulator_init a = Inl (NotValidJoiningPhaseSimulatorConfig r)"
      using o(2)[OF ids] by (rule exI)
    then show ?thesis using ids by blast
  next
    case built
    have "\<not> (\<exists>r. JoiningPhaseSimulator_init a = Inl (NotValidJoiningPhaseSimulatorConfig r))"
      unfolding o(3)[OF built] by simp
    then show ?thesis using built by fastforce
  qed
qed

lemma adv_slots_pos_finish_init: "adv_slots_pos_in_ms (finish_init a sub pos) = pos"
  by (simp add: finish_init_def)

lemma init_positions:
  assumes i: "JoiningPhaseSimulator_init a = Inr sim"
    and m: "scheduling_method a \<notin> {ECV, ECH, Minimal6TiSCH}"
  shows "adv_slots_pos_in_ms sim
         = first_R_slots (ebi a) (slotframe_length a) (required_adv_slots a (subslots_for a))"
proof -
  note c = init_check_arguments[OF i]
  have L: "slotframe_length a > 0" and e: "ebi a \<ge> 0"
    using c by (simp_all add: check_arguments_None_iff)
  have s: "slots_per_slotframe a = required_adv_slots a (subslots_for a)"
    using m by (simp add: slots_per_slotframe_def)
  have "adv_slots_pos_in_ms sim
        = first_slots_of_each_slotframe (slotframe_length a * ebi a) (slotframe_length a)
            (required_adv_slots a (subslots_for a))"
    using conjunct1[OF init_Inr_finish[OF i]] unfolding s
    by (simp only: adv_slots_pos_finish_init)
  then show ?thesis by (simp only: first_slots_is_first_R[OF L e])
qed

lemma finish_init_sel:
  "args (finish_init a s p) = a"
  "subslots_per_adv_slot (finish_init a s p) = s"
  "adv_slots_pos_in_ms (finish_init a s p) = p"
  "num_adv_slots_in_ms (finish_init a s p) = int (length p)"
  "total_adv_subslots_in_ms (finish_init a s p) = int (length p) * s"
  "ssn (finish_init a s p) = compute_ssn (slotframe_length a) s p"
  "num_slots_in_ms (finish_init a s p) = slotframe_length a * ebi a"
  "subslot_length (finish_init a s p) = mac_ts_tx_offset (timeslot_template a) + t_eb a"
  "slot_0_start_time (finish_init a s p)
     = (case pan_coordinator (node_group a) of None \<Rightarrow> 0 | Some p \<Rightarrow> boot_time p)"
  by (simp_all add: finish_init_def)

text \<open>The shape of every constructed simulator.\<close>

lemma init_shape:
  assumes "JoiningPhaseSimulator_init a = Inr sim"
  shows "args sim = a"
    "subslots_per_adv_slot sim = subslots_for a"
    "adv_slots_pos_in_ms sim
       = first_slots_of_each_slotframe (slotframe_length a * ebi a) (slotframe_length a)
           (slots_per_slotframe a)"
    "num_adv_slots_in_ms sim = int (length (adv_slots_pos_in_ms sim))"
    "total_adv_subslots_in_ms sim = num_adv_slots_in_ms sim * subslots_for a"
    "ssn sim = compute_ssn (slotframe_length a) (subslots_for a) (adv_slots_pos_in_ms sim)"
    "num_slots_in_ms sim = slotframe_length a * ebi a"
    "subslot_length sim = mac_ts_tx_offset (timeslot_template a) + t_eb a"
    "slot_0_start_time sim
       = (case pan_coordinator (node_group a) of None \<Rightarrow> 0 | Some p \<Rightarrow> boot_time p)"
    "slots_per_slotframe a \<le> slotframe_length a"
    "slotframe_length a > 0" "ebi a > 0" "num_channels a > 0"
proof -
  note f = conjunct1[OF init_Inr_finish[OF assms]]
  note c = init_check_arguments[OF assms]
  show "args sim = a" by (subst f) (rule finish_init_sel)
  show "subslots_per_adv_slot sim = subslots_for a" by (subst f) (rule finish_init_sel)
  show p: "adv_slots_pos_in_ms sim
       = first_slots_of_each_slotframe (slotframe_length a * ebi a) (slotframe_length a)
           (slots_per_slotframe a)" by (subst f) (rule finish_init_sel)
  show n: "num_adv_slots_in_ms sim = int (length (adv_slots_pos_in_ms sim))"
    by (subst (1 2) f) (simp only: finish_init_sel)
  show "total_adv_subslots_in_ms sim = num_adv_slots_in_ms sim * subslots_for a"
    by (subst (1 2) f) (simp only: finish_init_sel)
  show "ssn sim = compute_ssn (slotframe_length a) (subslots_for a) (adv_slots_pos_in_ms sim)"
    by (subst (1 2) f) (simp only: finish_init_sel)
  show "num_slots_in_ms sim = slotframe_length a * ebi a" by (subst f) (rule finish_init_sel)
  show "subslot_length sim = mac_ts_tx_offset (timeslot_template a) + t_eb a"
    by (subst f) (rule finish_init_sel)
  show "slot_0_start_time sim
       = (case pan_coordinator (node_group a) of None \<Rightarrow> 0 | Some p \<Rightarrow> boot_time p)"
    by (subst f) (rule finish_init_sel)
  show "slots_per_slotframe a \<le> slotframe_length a"
    by (rule conjunct2[OF init_Inr_finish[OF assms]])
  show "slotframe_length a > 0" "ebi a > 0" "num_channels a > 0"
    using c by (simp_all add: check_arguments_None_iff)
qed

lemma grid_facts:
  assumes init: "JoiningPhaseSimulator_init a = Inr sim"
    and i: "0 \<le> i" "i < num_adv_slots_in_ms sim"
  shows "slots_per_slotframe a > 0"
    and "num_adv_slots_in_ms sim = ebi a * slots_per_slotframe a"
proof -
  note s = init_shape[OF init]
  have L: "slotframe_length a > 0" and e: "ebi a \<ge> 0" using s(11,12) by simp_all
  show R: "slots_per_slotframe a > 0"
  proof (rule ccontr)
    assume "\<not> slots_per_slotframe a > 0"
    then have "adv_slots_pos_in_ms sim = []"
      unfolding s(3) by (intro first_slots_nonpos) simp
    then show False using i s(4) by simp
  qed
  have "length (adv_slots_pos_in_ms sim) = nat (ebi a) * nat (slots_per_slotframe a)"
    unfolding s(3) using length_first_slots[OF L e, of "slots_per_slotframe a"] R by simp
  then show "num_adv_slots_in_ms sim = ebi a * slots_per_slotframe a"
    unfolding s(4) using e R by simp
qed

lemma slotframe_of_subslot_eq:
  assumes init: "JoiningPhaseSimulator_init a = Inr sim"
    and i: "0 \<le> i" "i < num_adv_slots_in_ms sim"
    and S: "subslots_for a > 0"
    and k: "0 \<le> k" "k div subslots_for a < num_adv_slots_in_ms sim"
  shows "slotframe_of_subslot sim k = k div (subslots_for a * slots_per_slotframe a)"
proof -
  note s = init_shape[OF init]
  note g = grid_facts[OF init i]
  have L: "slotframe_length a > 0" and e: "ebi a \<ge> 0" using s(11,12) by simp_all
  have k0: "0 \<le> k div subslots_for a" using k(1) S by (simp add: pos_imp_zdiv_nonneg_iff)
  have "nat (k div subslots_for a) < nat (ebi a * slots_per_slotframe a)"
    using k(2) k0 unfolding g(2) by simp
  then have kk: "nat (k div subslots_for a) < nat (ebi a) * nat (slots_per_slotframe a)"
    using e g(1) by (simp add: nat_mult_distrib)
  have "adv_slots_pos_in_ms sim ! nat (k div subslots_for a) div slotframe_length a
        = int (nat (k div subslots_for a)) div slots_per_slotframe a"
    unfolding s(3) by (rule slotframe_of_pos[OF L e g(1) s(10) kk])
  also have "\<dots> = k div subslots_for a div slots_per_slotframe a" using k0 by simp
  also have "\<dots> = k div (subslots_for a * slots_per_slotframe a)"
    using g(1) by (simp add: zdiv_zmult2_eq)
  finally show ?thesis
    unfolding slotframe_of_subslot_def s(1,2) .
qed

lemma position_in_slotframe_eq:
  assumes init: "JoiningPhaseSimulator_init a = Inr sim"
    and i: "0 \<le> i" "i < num_adv_slots_in_ms sim"
    and j: "0 \<le> j" "j < subslots_for a"
  shows "position_in_slotframe sim (i * subslots_for a + j)
         = subslots_for a * (i mod slots_per_slotframe a) + j"
proof -
  let ?S = "subslots_for a" and ?R = "slots_per_slotframe a"
  let ?idx = "i * ?S + j"
  note g = grid_facts[OF init i]
  have S: "?S > 0" using j by linarith
  have M: "?S * ?R > 0" using S g(1) by simp
  have idx0: "0 \<le> ?idx" using i j S by simp
  have idxd: "?idx div ?S = i" using j S by simp
  have sf_idx: "slotframe_of_subslot sim ?idx = ?idx div (?S * ?R)"
    by (rule slotframe_of_subslot_eq[OF init i S idx0]) (simp add: idxd i)
  have sf_k: "slotframe_of_subslot sim k = k div (?S * ?R)" if "k \<in> set (range2 0 ?idx)" for k
  proof -
    have k: "0 \<le> k" "k < ?idx" using that by (simp_all add: range2_def)
    have "k div ?S \<le> ?idx div ?S" using k(2) S by (intro zdiv_mono1) simp_all
    then have "k div ?S < num_adv_slots_in_ms sim" using idxd i by simp
    then show ?thesis by (rule slotframe_of_subslot_eq[OF init i S k(1)])
  qed
  have "filter (\<lambda>k. slotframe_of_subslot sim k = slotframe_of_subslot sim ?idx) (range2 0 ?idx)
        = filter (\<lambda>k. k div (?S * ?R) = ?idx div (?S * ?R)) (range2 0 ?idx)"
    by (rule filter_cong[OF refl]) (simp add: sf_k sf_idx)
  then have "position_in_slotframe sim ?idx = ?idx mod (?S * ?R)"
    unfolding position_in_slotframe_def using count_same_block[OF M idx0] by simp
  also have "\<dots> = ?S * (i mod ?R) + j"
    using block_mod(1)[OF g(1) j, of i] by (simp add: mult.commute)
  finally show ?thesis .
qed

lemma ssn_of_subslot_eq:
  assumes init: "JoiningPhaseSimulator_init a = Inr sim"
    and i: "0 \<le> i" "i < num_adv_slots_in_ms sim"
    and j: "0 \<le> j" "j < subslots_for a"
    and S: "subslots_for a > 1"
  shows "ssn_of_subslot sim (i * subslots_for a + j)
         = Some (subslots_for a * (i mod slots_per_slotframe a) + j)"
proof -
  note s = init_shape[OF init]
  note g = grid_facts[OF init i]
  have L: "slotframe_length a > 0" and e: "ebi a \<ge> 0" using s(11,12) by simp_all
  have S1: "subslots_for a \<ge> 1" using S by simp
  have i2: "i < ebi a * slots_per_slotframe a" using i(2) g(2) by simp
  have "ssn_loop (slotframe_length a) (subslots_for a) (range2 0 (subslots_for a))
          (adv_slots_pos_in_ms sim) ! nat (i * subslots_for a + j)
        = subslots_for a * (i mod slots_per_slotframe a) + j"
    unfolding s(3) by (rule ssn_loop_nth[OF L e g(1) s(10) S1 i(1) i2 j])
  then show ?thesis
    unfolding ssn_of_subslot_def s(2) s(6) compute_ssn_def using S by simp
qed

section \<open>Facts about the example configurations\<close>

lemma example_args_sel:
  "nodes (node_group (example_args m ch ns)) = ns"
  "pan_coordinator (node_group (example_args m ch ns)) = Some (hd ns)"
  "scheduling_method (example_args m ch ns) = m"
  "slotframe_length (example_args m ch ns) = 101"
  "eb_length (example_args m ch ns) = 50"
  "num_channels (example_args m ch ns) = ch"
  "scan_duration (example_args m ch ns) = 2020000000"
  "ebi (example_args m ch ns) = 1"
  "atp_enabled (example_args m ch ns) = False"
  "t_eb (example_args m ch ns) = 1792000"
  "timeslot_template (example_args m ch ns) = default_template"
  by (simp_all add: example_args_def)

lemma example_subslots: "subslots_for (example_args m ch ns) = 1"
  by (simp add: subslots_for_def example_args_sel)

lemma node_sel:
  "node_id (ffd i) = i" "node_type (ffd i) = FFD" "boot_time (ffd i) = 0"
  "node_id (rfd i) = i" "node_type (rfd i) = RFD" "boot_time (rfd i) = 0"
  by (simp_all add: ffd_def rfd_def)

lemma ffd_eq: "ffd i = ffd j \<longleftrightarrow> i = j"
  by (auto simp: ffd_def)

lemma no_underflow_below:
  assumes "0 < n" "d < 2 ^ 1075"
  shows "\<not> (n * 2 ^ 1075 \<le> (d::int))"
proof
  assume x: "n * 2 ^ 1075 \<le> d"
  have "1 * (2::int) ^ 1075 \<le> n * 2 ^ 1075" using assms(1) by (intro mult_right_mono) simp_all
  then show False using x assms(2) by simp
qed

lemma ceil_div_small:
  assumes "0 < b" "b < 2 ^ 1075"
  shows "ceil_div a b = - ((- a) div b)"
proof (rule ceil_div_exact[OF assms(1)])
  show "\<not> (0 < a \<and> a * 2 ^ 1075 \<le> b)"
    using no_underflow_below[OF _ assms(2), of a] by blast
qed

lemma quotient_underflows_small:
  assumes "slot_divisor a < 2 ^ 1075"
  shows "\<not> quotient_underflows a"
  using no_underflow_below[OF _ assms, of "ffds_counted a"]
  by (auto simp: quotient_underflows_def)

lemma three_ffds_facts:
  "check_arguments three_ffds = None"
  "scheduling_method three_ffds \<notin> {ECV, ECH, Minimal6TiSCH}"
  "slot_divisor three_ffds = 2"
  "wf_group (node_group three_ffds)"
  "ffds_counted three_ffds = 3"
  "slotframe_length three_ffds = 101"
  "num_ffds (node_group three_ffds) = 3"
  "ebi three_ffds = 1"
  "scheduling_method three_ffds = CFASV"
  unfolding three_ffds_def
  by (simp_all add: check_arguments_None_iff example_args_sel example_subslots node_sel
      size_of_group_def enhanced_methods_def slot_divisor_def wf_group_def ffd_eq
      ffds_counted_def num_ffds_def)

lemma three_ffds_required: "required_adv_slots three_ffds (subslots_for three_ffds) = 2"
proof -
  have "ceil_div 3 2 = - ((- 3) div 2)" by (rule ceil_div_small) simp_all
  then have "ceil_div 3 2 = 2" by simp
  then show ?thesis
    unfolding required_is_ceil_div three_ffds_facts(3,5) .
qed

lemma three_ffds_subslots: "subslots_for three_ffds = 1"
  by (simp add: three_ffds_def example_subslots)

lemma three_ffds_no_underflow: "\<not> quotient_underflows three_ffds"
  by (rule quotient_underflows_small) (simp add: three_ffds_facts)

lemma ids_0_and_48_facts:
  "check_arguments ids_0_and_48 = None"
  "scheduling_method ids_0_and_48 \<notin> {ECV, ECH, Minimal6TiSCH}"
  "slot_divisor ids_0_and_48 = 16"
  "ffds_counted ids_0_and_48 = 2"
  "slotframe_length ids_0_and_48 = 101"
  "ebi ids_0_and_48 = 1"
  "num_channels ids_0_and_48 = 16"
  "scheduling_method ids_0_and_48 = CFASV"
  unfolding ids_0_and_48_def
  by (simp_all add: check_arguments_None_iff example_args_sel example_subslots node_sel
      size_of_group_def enhanced_methods_def slot_divisor_def
      ffds_counted_def num_ffds_def)

lemma ids_0_and_48_required:
  "required_adv_slots ids_0_and_48 (subslots_for ids_0_and_48) = 1"
proof -
  have "ceil_div 2 16 = - ((- 2) div 16)" by (rule ceil_div_small) simp_all
  then have "ceil_div 2 16 = 1" by simp
  then show ?thesis
    unfolding required_is_ceil_div ids_0_and_48_facts(3,4) .
qed

lemma ids_0_and_48_no_underflow: "\<not> quotient_underflows ids_0_and_48"
  by (rule quotient_underflows_small) (simp add: ids_0_and_48_facts)

lemma ids_0_and_48_modulus: "cells_modulus ids_0_and_48 = 16"
  unfolding cells_modulus_divisor ids_0_and_48_required ids_0_and_48_facts by simp

lemma ids_0_and_48_refused:
  "JoiningPhaseSimulator_init ids_0_and_48
   = Inl (NotValidJoiningPhaseSimulatorConfig NotOneToOne)"
proof -
  have d: "slot_divisor ids_0_and_48 \<noteq> 0" by (simp add: ids_0_and_48_facts)
  have k: "check_ids (mapped_node ids_0_and_48) 16 (nodes (node_group ids_0_and_48)) {}
           = Some (NotValidJoiningPhaseSimulatorConfig NotOneToOne)"
    by (simp add: ids_0_and_48_def example_args_sel mapped_node_def node_sel)
  show ?thesis
    unfolding init_cfas_family[OF ids_0_and_48_facts(1,2) d] ids_0_and_48_required
      ids_0_and_48_modulus ids_0_and_48_facts k
    by simp
qed

lemma range_step_once: "0 < L \<Longrightarrow> range_step 0 L L = [0]"
  by (subst range_step.simps) (simp add: range_step.simps[of L])

lemma range2_0_2: "range2 0 2 = [0, 1]"
  by (simp add: range2_def upto.simps)

lemma three_ffds_init:
  "JoiningPhaseSimulator_init three_ffds = Inr (finish_init three_ffds 1 [0, 1])"
proof -
  have d: "slot_divisor three_ffds \<noteq> 0" by (simp add: three_ffds_facts)
  have cm: "cells_modulus three_ffds = 4"
    unfolding cells_modulus_divisor three_ffds_required three_ffds_facts by simp
  have k: "check_ids (mapped_node three_ffds) 4 (nodes (node_group three_ffds)) {} = None"
    by (simp add: three_ffds_def example_args_sel mapped_node_def node_sel)
  have p: "first_slots_of_each_slotframe 101 101 2 = [0, 1]"
    by (simp add: first_slots_of_each_slotframe_def range_step_once range2_0_2)
  show ?thesis
    unfolding init_cfas_family[OF three_ffds_facts(1,2) d] three_ffds_required cm k
      three_ffds_facts
    by (simp add: p three_ffds_subslots)
qed

lemma first_R_slots_1_101_2: "first_R_slots 1 101 2 = [0, 1]"
  by (simp add: first_R_slots_def range2_def upto.simps)

lemma default_template_sel:
  "mac_ts_timeslot_length default_template = 10000000"
  "mac_ts_tx_offset default_template = 2120000"
  "mac_ts_rx_wait default_template = 2200000"
  by (simp_all add: default_template_def template_of_def us_def Timedelta_us_def
      defaultTimeslotTemplateFor2450MHzBand_attributes_def)

lemma three_ffds_atp_sel:
  "nodes (node_group three_ffds_atp) = [ffd 0, ffd 1, ffd 2]"
  "pan_coordinator (node_group three_ffds_atp) = Some (ffd 0)"
  "scheduling_method three_ffds_atp = CFASV"
  "slotframe_length three_ffds_atp = 101"
  "num_channels three_ffds_atp = 2"
  "ebi three_ffds_atp = 1"
  "atp_enabled three_ffds_atp = True"
  "subslots_for three_ffds_atp = 2"
  by (simp_all add: three_ffds_atp_def three_ffds_def example_args_def subslots_for_def
      default_template_sel)

lemma three_ffds_atp_check: "check_arguments three_ffds_atp = None"
  by (simp add: check_arguments_None_iff three_ffds_atp_def three_ffds_def example_args_def
      size_of_group_def enhanced_methods_def)

lemma three_ffds_atp_init:
  "JoiningPhaseSimulator_init three_ffds_atp = Inr (finish_init three_ffds_atp 2 [0])"
proof -
  have m: "scheduling_method three_ffds_atp \<notin> {ECV, ECH, Minimal6TiSCH}"
    by (simp add: three_ffds_atp_sel)
  have d: "slot_divisor three_ffds_atp \<noteq> 0"
    by (simp add: slot_divisor_def three_ffds_atp_sel)
  have "ceil_div 3 4 = - ((- 3) div 4)" by (rule ceil_div_small) simp_all
  then have r: "required_adv_slots three_ffds_atp 2 = 1"
    by (simp add: required_adv_slots_def three_ffds_atp_sel num_ffds_def node_sel)
  have cm: "cells_modulus three_ffds_atp = 4"
    by (simp add: cells_modulus_def three_ffds_atp_sel r)
  have k: "check_ids (mapped_node three_ffds_atp) 4 [ffd 0, ffd 1, ffd 2] {} = None"
    by (simp add: mapped_node_def three_ffds_atp_sel node_sel)
  have k': "check_ids (mapped_node three_ffds_atp) (cells_modulus three_ffds_atp)
              (nodes (node_group three_ffds_atp)) {} = None"
    unfolding cm three_ffds_atp_sel(1) by (rule k)
  have p: "first_slots_of_each_slotframe 101 101 1 = [0]"
    by (simp add: first_slots_one range_step_once)
  show ?thesis
    unfolding init_cfas_family[OF three_ffds_atp_check m d] k'
    by (simp add: three_ffds_atp_sel r p)
qed

section \<open>The driver: one capture pass\<close>







section \<open>The driver: one sensing pass\<close>

lemma sense_cell_fields:
  "advertisers (fst (sense_cell sim env s c acc)) = advertisers (fst acc)"
  "unjoined_nodes (fst (sense_cell sim env s c acc)) = unjoined_nodes (fst acc)"
  "joined_nodes (fst (sense_cell sim env s c acc)) = joined_nodes (fst acc)"
  "sensing_nodes (fst (sense_cell sim env s c acc))
     = (sensing_nodes (fst acc))((s, c) := {})"
  "snd (sense_cell sim env s c acc)
     = (if \<not> is_final_cell sim s c
        then (snd acc)(next_cell sim s c \<mapsto> nodes_sense_ch_busy (fst acc) env s c)
        else snd acc)"
  by (simp_all add: sense_cell_def Let_def)

lemma sense_cell_alloc:
  "allocated_ch_offset (fst (sense_cell sim env s c acc)) n =
     (if n \<in> sensing_nodes (fst acc) (s, c) then
        (if n \<in> nodes_sense_ch_busy (fst acc) env s c then
           (if is_final_cell sim s c
            then (allocated_ch_offset (fst acc) n)
                   (fst (fallback_cell sim env n) \<mapsto> snd (fallback_cell sim env n))
            else allocated_ch_offset (fst acc) n)
         else (allocated_ch_offset (fst acc) n)(s \<mapsto> c))
      else allocated_ch_offset (fst acc) n)"
  by (auto simp: sense_cell_def Let_def nodes_sense_ch_busy_def)

lemma busy_subset: "nodes_sense_ch_busy st env s c \<subseteq> sensing_nodes st (s, c)"
  by (auto simp: nodes_sense_ch_busy_def)

lemma fold_sense_cell_sensing_nodes:
  "sensing_nodes (fst (fold (sense_cell sim env s) cs acc)) cell
   = (if fst cell = s \<and> snd cell \<in> set cs then {} else sensing_nodes (fst acc) cell)"
proof (induction cs arbitrary: acc)
  case Nil
  then show ?case by simp
next
  case (Cons c cs)
  show ?case
    unfolding fold_simps Cons.IH sense_cell_fields(4)
    by (cases cell) auto
qed

lemma next_cell_inj:
  assumes "next_cell sim s c = next_cell sim s c'"
  shows "c = c'"
  using assms by (auto simp: next_cell_def split: if_splits)

lemma fold_sense_cell_keeps:
  assumes "\<forall>c' \<in> set cs. next_cell sim s c' \<noteq> key"
  shows "snd (fold (sense_cell sim env s) cs acc) key = snd acc key"
  using assms
proof (induction cs arbitrary: acc)
  case Nil
  then show ?case by simp
next
  case (Cons c cs)
  have "snd (fold (sense_cell sim env s) cs (sense_cell sim env s c acc)) key
        = snd (sense_cell sim env s c acc) key"
    using Cons.IH Cons.prems by simp
  also have "\<dots> = snd acc key"
    using Cons.prems by (auto simp: sense_cell_fields(5))
  finally show ?case by simp
qed

lemma sensing_nodes_flush:
  "sensing_nodes (flush acc) key
   = (case snd acc key of None \<Rightarrow> sensing_nodes (fst acc) key | Some v \<Rightarrow> v)"
  by (simp add: flush_def)

lemma allocated_flush: "allocated_ch_offset (flush acc) = allocated_ch_offset (fst acc)"
  by (simp add: flush_def)

lemma range2_split:
  assumes "1 \<le> c" "c < n"
  shows "range2 1 n = range2 1 c @ c # range2 (c + 1) n"
proof -
  have "[1..n - 1] = [1..c - 1] @ c # [c + 1..n - 1]"
    using assms by (intro upto_split3) simp_all
  then show ?thesis by (simp add: range2_def)
qed

lemma sensing_loop_split:
  assumes "1 \<le> c" "c < num_channels (args sim)"
  shows "sensing_loop sim env s st
         = fold (sense_cell sim env s) (range2 (c + 1) (num_channels (args sim)))
             (sense_cell sim env s c
                (fold (sense_cell sim env s) (range2 1 c) (st, Map.empty)))"
  unfolding sensing_loop_def range2_split[OF assms] by simp

lemma state_at_offset_sensing:
  "sensing_nodes (state_at_offset sim env s c st) (s, c) = sensing_nodes st (s, c)"
  unfolding state_at_offset_def fold_sense_cell_sensing_nodes
  by (simp add: range2_def)

lemma randint_range:
  assumes "a \<le> b"
  shows "a \<le> randint a b draw" "randint a b draw \<le> b"
proof -
  have p: "0 < b - a + 1" using assms by simp
  have "0 \<le> draw mod (b - a + 1)" using p by (rule pos_mod_sign)
  then show "a \<le> randint a b draw" by (simp add: randint_def)
  have "draw mod (b - a + 1) < b - a + 1" using p by (rule pos_mod_bound)
  then show "randint a b draw \<le> b" by (simp add: randint_def)
qed

section \<open>The driver: the sets of nodes along a run\<close>




















section \<open>Claim C4: the number of advertisement slots of the (E)CFAS family\<close>

text \<open>
  Claim C4, as amended.  Take a configuration of the (E)CFAS family that passes the
  argument checks, whose divisor \<open>D\<close> (the number of channels, less one for the enhanced
  methods, times EBI times the subslots per advertisement slot) is positive, with fewer
  than \<open>2^53\<close> FFDs, and whose float quotient is not rounded to zero (that is, not both
  a positive number \<open>n\<close> of counted FFDs and \<open>D \<ge> n * 2^1075\<close>).  Then the constructor
  computes \<open>R\<close> as the ceiling that the specification writes.  It raises a configuration
  error exactly when \<open>R\<close> exceeds the slotframe length or, for CFASV, CFASH, ECFASV and
  ECFASH, the map of the ids modulo the number of advertisement cells is not injective
  on the FFDs (the PAN coordinator excluded for the enhanced methods); that error is
  "the number of slots is less than required" exactly when \<open>R\<close> exceeds the slotframe
  length.  Construction succeeds in every other case, that is exactly when \<open>R\<close> does not
  exceed the slotframe length and the method is MAC\_BASED\_AS or EMAC\_BASED\_AS or the
  id mapping is injective; and whenever it succeeds, the advertisement slots of the
  multi-slotframe are exactly the first \<open>R\<close> slots of each slotframe.
\<close>

theorem cfas_family_advertisement_slots:
  assumes "check_arguments a = None"
    and "scheduling_method a \<notin> {ECV, ECH, Minimal6TiSCH}"
    and "slot_divisor a > 0"
    and "wf_group (node_group a)"
    and "num_ffds (node_group a) < 2 ^ 53"
    and "\<not> quotient_underflows a"
  shows "required_adv_slots a (subslots_for a) = R_of_spec a
       \<and> ((\<exists>r. JoiningPhaseSimulator_init a = Inl (NotValidJoiningPhaseSimulatorConfig r))
          \<longleftrightarrow> R_of_spec a > slotframe_length a
              \<or> (scheduling_method a \<notin> {MAC_BASED_AS, EMAC_BASED_AS}
                 \<and> \<not> id_mapping_injective a))
       \<and> (JoiningPhaseSimulator_init a
            = Inl (NotValidJoiningPhaseSimulatorConfig SlotsLessThanRequired)
          \<longleftrightarrow> R_of_spec a > slotframe_length a)
       \<and> ((\<exists>sim. JoiningPhaseSimulator_init a = Inr sim)
          \<longleftrightarrow> R_of_spec a \<le> slotframe_length a
              \<and> (scheduling_method a \<in> {MAC_BASED_AS, EMAC_BASED_AS}
                 \<or> id_mapping_injective a))
       \<and> (\<forall>sim. JoiningPhaseSimulator_init a = Inr sim \<longrightarrow>
            adv_slots_pos_in_ms sim = first_R_slots (ebi a) (slotframe_length a) (R_of_spec a))"
proof -
  have d0: "slot_divisor a \<noteq> 0" using assms(3) by simp
  note r = required_is_R_of_spec[OF assms(3,6)]
  have 1: "(\<exists>r. JoiningPhaseSimulator_init a = Inl (NotValidJoiningPhaseSimulatorConfig r))
          \<longleftrightarrow> R_of_spec a > slotframe_length a
              \<or> (scheduling_method a \<notin> {MAC_BASED_AS, EMAC_BASED_AS}
                 \<and> \<not> id_mapping_injective a)"
    using init_config_error_iff[OF assms(1-4,6)] unfolding r .
  have 2: "JoiningPhaseSimulator_init a
            = Inl (NotValidJoiningPhaseSimulatorConfig SlotsLessThanRequired)
          \<longleftrightarrow> R_of_spec a > slotframe_length a"
    using init_slots_error_iff[OF assms(1,2) d0] unfolding r .
  have 3: "(\<exists>sim. JoiningPhaseSimulator_init a = Inr sim)
          \<longleftrightarrow> R_of_spec a \<le> slotframe_length a
              \<and> (scheduling_method a \<in> {MAC_BASED_AS, EMAC_BASED_AS}
                 \<or> id_mapping_injective a)"
    using init_constructed_iff[OF assms(1-4,6)] unfolding r .
  have 4: "\<forall>sim. JoiningPhaseSimulator_init a = Inr sim \<longrightarrow>
            adv_slots_pos_in_ms sim = first_R_slots (ebi a) (slotframe_length a) (R_of_spec a)"
    using init_positions[OF _ assms(2)] unfolding r by blast
  show ?thesis using r 1 2 3 4 by (intro conjI)
qed

theorem cfas_family_advertisement_slots_witness:
  "check_arguments three_ffds = None
   \<and> scheduling_method three_ffds \<notin> {ECV, ECH, Minimal6TiSCH}
   \<and> slot_divisor three_ffds > 0
   \<and> wf_group (node_group three_ffds)
   \<and> num_ffds (node_group three_ffds) < 2 ^ 53
   \<and> \<not> quotient_underflows three_ffds
   \<and> R_of_spec three_ffds = 2
   \<and> id_mapping_injective three_ffds
   \<and> JoiningPhaseSimulator_init three_ffds = Inr (finish_init three_ffds 1 [0, 1])
   \<and> adv_slots_pos_in_ms (finish_init three_ffds 1 [0, 1]) = [0, 1]
   \<and> first_R_slots (ebi three_ffds) (slotframe_length three_ffds) 2 = [0, 1]"
proof -
  have d: "slot_divisor three_ffds > 0" by (simp add: three_ffds_facts(3))
  have n: "num_ffds (node_group three_ffds) < 2 ^ 53" by (simp add: three_ffds_facts(7))
  note t = cfas_family_advertisement_slots[OF three_ffds_facts(1,2) d three_ffds_facts(4) n
      three_ffds_no_underflow]
  have r: "R_of_spec three_ffds = 2"
    using conjunct1[OF t] by (simp add: three_ffds_required)
  have c: "\<exists>sim. JoiningPhaseSimulator_init three_ffds = Inr sim"
    using three_ffds_init by (rule exI)
  have i: "id_mapping_injective three_ffds"
    using conjunct1[OF conjunct2[OF conjunct2[OF conjunct2[OF t]]]] c
    by (simp add: three_ffds_facts(9))
  have p: "adv_slots_pos_in_ms (finish_init three_ffds 1 [0, 1])
           = first_R_slots (ebi three_ffds) (slotframe_length three_ffds) 2"
    using conjunct2[OF conjunct2[OF conjunct2[OF conjunct2[OF t]]]] three_ffds_init
    unfolding r by blast
  have f: "first_R_slots (ebi three_ffds) (slotframe_length three_ffds) 2 = [0, 1]"
    by (simp add: three_ffds_facts first_R_slots_1_101_2)
  have p': "adv_slots_pos_in_ms (finish_init three_ffds 1 [0, 1]) = [0, 1]"
    using p f by simp
  show ?thesis
    using three_ffds_facts(1,2,4) d n three_ffds_no_underflow r i three_ffds_init p' f
    by (intro conjI)
qed

text \<open>
  Claim C4, as stated, fails on the two FFDs with the ids 0 and 48 on 16 channels
  (the third scenario of the specification): one advertisement slot per slotframe is
  enough (\<open>R = 1\<close>), and the constructor raises a configuration error all the same,
  because both ids are mapped to cell 0.
\<close>

theorem config_error_with_enough_slots_counterexample:
  "\<not> ((\<exists>r. JoiningPhaseSimulator_init ids_0_and_48
             = Inl (NotValidJoiningPhaseSimulatorConfig r))
        \<longleftrightarrow> R_of_spec ids_0_and_48 > slotframe_length ids_0_and_48)"
proof -
  have d: "slot_divisor ids_0_and_48 > 0" by (simp add: ids_0_and_48_facts(3))
  have "R_of_spec ids_0_and_48 = 1"
    using required_is_R_of_spec[OF d ids_0_and_48_no_underflow]
    by (simp add: ids_0_and_48_required)
  then show ?thesis
    by (simp add: ids_0_and_48_refused ids_0_and_48_facts(5))
qed

section \<open>Claim C8: the channel of an EB transmission\<close>

text \<open>
  Claim C8.  In every constructed simulator, for every advertisement subslot \<open>(i, j)\<close>
  of the grid and every channel offset, the channel that the driver computes for an EB
  is \<open>(ASN + ssn + channel_offset) mod num_channels\<close> when an advertisement slot has
  more than one subslot and \<open>(ASN + channel_offset) mod num_channels\<close> otherwise, where
  \<open>ssn\<close> is the number of advertisement subslots of the same slotframe that precede
  the subslot (its 0-based position in its slotframe, which starts again from 0 in the
  next slotframe).
\<close>

theorem eb_transmission_channel:
  assumes "JoiningPhaseSimulator_init a = Inr sim"
    and "0 \<le> i" and "i < num_adv_slots_in_ms sim"
    and "0 \<le> j" and "j < subslots_per_adv_slot sim"
  shows "eb_channel sim st i j ch_offset =
           (if subslots_per_adv_slot sim > 1
            then (asn_of sim st i
                  + position_in_slotframe sim (i * subslots_per_adv_slot sim + j)
                  + ch_offset) mod num_channels a
            else (asn_of sim st i + ch_offset) mod num_channels a)"
proof -
  note s = init_shape[OF assms(1)]
  have j: "j < subslots_for a" using assms(5) s(2) by simp
  show ?thesis
  proof (cases "subslots_for a > 1")
    case True
    have "ssn_of_subslot sim (i * subslots_for a + j)
          = Some (position_in_slotframe sim (i * subslots_for a + j))"
      using ssn_of_subslot_eq[OF assms(1-4) j True]
            position_in_slotframe_eq[OF assms(1-4) j] by simp
    then show ?thesis
      using True by (simp add: eb_channel_def channel_calculation_def s(1,2))
  next
    case False
    then have "ssn_of_subslot sim (i * subslots_for a + j) = None"
      by (simp add: ssn_of_subslot_def s(2))
    then show ?thesis
      using False by (simp add: eb_channel_def channel_calculation_def s(1,2))
  qed
qed

theorem eb_transmission_channel_witness:
  "JoiningPhaseSimulator_init three_ffds_atp = Inr (finish_init three_ffds_atp 2 [0])
   \<and> (0::int) \<le> 0 \<and> 0 < num_adv_slots_in_ms (finish_init three_ffds_atp 2 [0])
   \<and> (0::int) \<le> 1 \<and> 1 < subslots_per_adv_slot (finish_init three_ffds_atp 2 [0])
   \<and> eb_channel (finish_init three_ffds_atp 2 [0]) state_in_msf_2 0 1 1
       = (asn_of (finish_init three_ffds_atp 2 [0]) state_in_msf_2 0
          + position_in_slotframe (finish_init three_ffds_atp 2 [0]) 1 + 1) mod 2"
proof -
  have n: "0 < num_adv_slots_in_ms (finish_init three_ffds_atp 2 [0])"
    and s: "1 < subslots_per_adv_slot (finish_init three_ffds_atp 2 [0])"
    by (simp_all add: finish_init_sel)
  have "eb_channel (finish_init three_ffds_atp 2 [0]) state_in_msf_2 0 1 1
       = (asn_of (finish_init three_ffds_atp 2 [0]) state_in_msf_2 0
          + position_in_slotframe (finish_init three_ffds_atp 2 [0]) 1 + 1) mod 2"
    using eb_transmission_channel[OF three_ffds_atp_init _ n _ s, of state_in_msf_2 1]
    by (simp add: finish_init_sel three_ffds_atp_sel)
  then show ?thesis using three_ffds_atp_init n s by simp
qed

section \<open>Claim C3: the MAC-based allocation\<close>


























section \<open>Claim C6: the walk of a sensing node\<close>

lemma busy_walks_on:
  assumes c: "1 \<le> c" "c < num_channels (args sim)"
    and n: "node \<in> sensing_nodes st (s, c)"
    and b: "is_a_neighbor_transmitting (state_at_offset sim env s c st) env node s c"
    and f: "\<not> is_final_cell sim s c"
  shows "node \<in> sensing_nodes (flush (sensing_loop sim env s st)) (next_cell sim s c)"
proof -
  let ?acc = "fold (sense_cell sim env s) (range2 1 c) (st, Map.empty)"
  let ?busy = "nodes_sense_ch_busy (fst ?acc) env s c"
  have here: "sensing_nodes (fst ?acc) (s, c) = sensing_nodes st (s, c)"
    using state_at_offset_sensing[of sim env s c st] by (simp add: state_at_offset_def)
  have busy: "node \<in> ?busy"
    using n b here by (simp add: nodes_sense_ch_busy_def state_at_offset_def)
  have later: "\<forall>c' \<in> set (range2 (c + 1) (num_channels (args sim))).
                 next_cell sim s c' \<noteq> next_cell sim s c"
  proof
    fix c' assume "c' \<in> set (range2 (c + 1) (num_channels (args sim)))"
    then have "c' \<noteq> c" by (simp add: range2_def)
    then show "next_cell sim s c' \<noteq> next_cell sim s c"
      using next_cell_inj[of sim s c' c] by blast
  qed
  have "snd (sensing_loop sim env s st) (next_cell sim s c)
        = snd (sense_cell sim env s c ?acc) (next_cell sim s c)"
    unfolding sensing_loop_split[OF c] by (rule fold_sense_cell_keeps[OF later])
  also have "\<dots> = Some ?busy"
    using f by (simp add: sense_cell_fields(5))
  finally have "sensing_nodes (flush (sensing_loop sim env s st)) (next_cell sim s c) = ?busy"
    by (simp add: sensing_nodes_flush)
  then show ?thesis using busy by simp
qed

lemma busy_at_final_cell:
  assumes c: "1 \<le> c" "c < num_channels (args sim)"
    and n: "node \<in> sensing_nodes st (s, c)"
    and b: "is_a_neighbor_transmitting (state_at_offset sim env s c st) env node s c"
    and f: "is_final_cell sim s c"
  shows "allocated_ch_offset (flush (sensing_loop sim env s st)) node
         = (allocated_ch_offset (state_at_offset sim env s c st) node)
             (fst (fallback_cell sim env node) \<mapsto> snd (fallback_cell sim env node))"
proof -
  let ?acc = "fold (sense_cell sim env s) (range2 1 c) (st, Map.empty)"
  have here: "sensing_nodes (fst ?acc) (s, c) = sensing_nodes st (s, c)"
    using state_at_offset_sensing[of sim env s c st] by (simp add: state_at_offset_def)
  have busy: "node \<in> nodes_sense_ch_busy (fst ?acc) env s c"
    using n b here by (simp add: nodes_sense_ch_busy_def state_at_offset_def)
  have last: "c + 1 = num_channels (args sim)" using f by (simp add: is_final_cell_def)
  have "range2 (c + 1) (num_channels (args sim)) = []"
    unfolding last by (simp add: range2_def)
  then have l: "sensing_loop sim env s st = sense_cell sim env s c ?acc"
    unfolding sensing_loop_split[OF c] by simp
  show ?thesis
    unfolding allocated_flush l sense_cell_alloc[of sim env s c ?acc node]
    using n here busy f by (simp add: state_at_offset_def)
qed

lemma fallback_cell_range:
  assumes "0 < total_adv_subslots_in_ms sim" "1 < num_channels (args sim)"
  shows "0 \<le> fst (fallback_cell sim env node)"
    "fst (fallback_cell sim env node) < total_adv_subslots_in_ms sim"
    "1 \<le> snd (fallback_cell sim env node)"
    "snd (fallback_cell sim env node) < num_channels (args sim)"
proof -
  have a: "0 \<le> total_adv_subslots_in_ms sim - 1" using assms(1) by simp
  have b: "1 \<le> num_channels (args sim) - 1" using assms(2) by simp
  show "0 \<le> fst (fallback_cell sim env node)"
    using randint_range(1)[OF a] by (simp add: fallback_cell_def)
  show "fst (fallback_cell sim env node) < total_adv_subslots_in_ms sim"
    using randint_range(2)[OF a, of "fst (fallback_draws env node)"]
    by (simp add: fallback_cell_def)
  show "1 \<le> snd (fallback_cell sim env node)"
    using randint_range(1)[OF b] by (simp add: fallback_cell_def)
  show "snd (fallback_cell sim env node) < num_channels (args sim)"
    using randint_range(2)[OF b, of "snd (fallback_draws env node)"]
    by (simp add: fallback_cell_def)
qed

text \<open>
  Claim C6.  Under ECV and ECH, take a node of the cell \<open>(s, c)\<close> that senses it busy
  in the pass of the subslot \<open>s\<close>.  If the cell is not the final one, the node is, after
  the pass, in the sensing set of the next cell: \<open>(s, c + 1)\<close>, or \<open>(s + 1, 1)\<close> when
  \<open>c\<close> is the last channel offset, under ECV; \<open>(s + 1, c)\<close>, or \<open>(0, c + 1)\<close> when \<open>s\<close>
  is the last subslot, under ECH.  If the cell is the final one, the node is allocated
  the cell that the two calls of \<open>randint\<close> return, with a subslot in
  \<open>[0, total_adv_subslots)\<close> and a channel offset in \<open>[1, num_channels)\<close>.
\<close>

theorem sensing_walk:
  assumes "method_of sim \<in> {ECV, ECH}"
    and "0 \<le> s" and "1 \<le> c" and "c < num_channels (args sim)"
    and "node \<in> sensing_nodes st (s, c)"
    and "is_a_neighbor_transmitting (state_at_offset sim env s c st) env node s c"
  shows "(\<not> is_final_cell sim s c \<longrightarrow>
            (method_of sim = ECV \<longrightarrow>
               node \<in> sensing_nodes (execute_sensing sim env s st)
                        (if c = num_channels (args sim) - 1 then (s + 1, 1) else (s, c + 1)))
          \<and> (method_of sim = ECH \<longrightarrow>
               node \<in> sensing_nodes (execute_sensing sim env s st)
                        (if s = total_adv_subslots_in_ms sim - 1 then (0, c + 1)
                         else (s + 1, c))))
       \<and> (is_final_cell sim s c \<longrightarrow>
            (\<exists>a b. (a, b) = (randint 0 (total_adv_subslots_in_ms sim - 1)
                               (fst (fallback_draws env node)),
                             randint 1 (num_channels (args sim) - 1)
                               (snd (fallback_draws env node)))
                 \<and> 0 \<le> a \<and> a < total_adv_subslots_in_ms sim
                 \<and> 1 \<le> b \<and> b < num_channels (args sim)
                 \<and> allocated_ch_offset (execute_sensing sim env s st) node
                     = (allocated_ch_offset (state_at_offset sim env s c st) node)(a \<mapsto> b)))"
proof -
  have e: "execute_sensing sim env s st = flush (sensing_loop sim env s st)"
    using assms(1) by (simp add: execute_sensing_def)
  have 1: "node \<in> sensing_nodes (execute_sensing sim env s st)
                        (if c = num_channels (args sim) - 1 then (s + 1, 1) else (s, c + 1))"
    if f: "\<not> is_final_cell sim s c" and m: "method_of sim = ECV"
  proof -
    have "next_cell sim s c
          = (if c = num_channels (args sim) - 1 then (s + 1, 1) else (s, c + 1))"
      using m by (simp add: next_cell_def)
    then show ?thesis
      using busy_walks_on[OF assms(3-6) f] unfolding e by simp
  qed
  have 2: "node \<in> sensing_nodes (execute_sensing sim env s st)
                        (if s = total_adv_subslots_in_ms sim - 1 then (0, c + 1)
                         else (s + 1, c))"
    if f: "\<not> is_final_cell sim s c" and m: "method_of sim = ECH"
  proof -
    have "next_cell sim s c
          = (if s = total_adv_subslots_in_ms sim - 1 then (0, c + 1) else (s + 1, c))"
      using m by (simp add: next_cell_def)
    then show ?thesis
      using busy_walks_on[OF assms(3-6) f] unfolding e by simp
  qed
  have 3: "\<exists>a b. (a, b) = (randint 0 (total_adv_subslots_in_ms sim - 1)
                               (fst (fallback_draws env node)),
                             randint 1 (num_channels (args sim) - 1)
                               (snd (fallback_draws env node)))
                 \<and> 0 \<le> a \<and> a < total_adv_subslots_in_ms sim
                 \<and> 1 \<le> b \<and> b < num_channels (args sim)
                 \<and> allocated_ch_offset (execute_sensing sim env s st) node
                     = (allocated_ch_offset (state_at_offset sim env s c st) node)(a \<mapsto> b)"
    if f: "is_final_cell sim s c"
  proof -
    have t: "0 < total_adv_subslots_in_ms sim"
      using f assms(2) by (simp add: is_final_cell_def)
    have n: "1 < num_channels (args sim)" using assms(3,4) by simp
    note r = fallback_cell_range[OF t n, of env node]
    have p: "fallback_cell sim env node
             = (randint 0 (total_adv_subslots_in_ms sim - 1) (fst (fallback_draws env node)),
                randint 1 (num_channels (args sim) - 1) (snd (fallback_draws env node)))"
      by (simp add: fallback_cell_def)
    have a: "allocated_ch_offset (execute_sensing sim env s st) node
             = (allocated_ch_offset (state_at_offset sim env s c st) node)
                 (fst (fallback_cell sim env node) \<mapsto> snd (fallback_cell sim env node))"
      unfolding e by (rule busy_at_final_cell[OF assms(3-6) f])
    show ?thesis
      using r a unfolding p by simp
  qed
  show ?thesis using 1 2 3 by blast
qed

lemma ecv_sim_sel:
  "method_of ecv_sim = ECV"
  "num_channels (args ecv_sim) = 3"
  "total_adv_subslots_in_ms ecv_sim = 1"
  by (simp_all add: ecv_sim_def method_of_def finish_init_sel example_args_sel)

lemma sensing_state_busy:
  "is_a_neighbor_transmitting (state_at_offset ecv_sim loud_radio 0 1 sensing_state)
     loud_radio (ffd 1) 0 1"
proof -
  have "state_at_offset ecv_sim loud_radio 0 1 sensing_state = sensing_state"
    by (simp add: state_at_offset_def range2_def)
  moreover have "ffd 2 \<in> transmitting_neighbors sensing_state loud_radio (ffd 1) 0 1"
    by (simp add: transmitting_neighbors_def sensing_state_def loud_radio_def ffd_eq)
  ultimately show ?thesis
    unfolding is_a_neighbor_transmitting_def by auto
qed

theorem sensing_walk_witness:
  "method_of ecv_sim \<in> {ECV, ECH} \<and> (0::int) \<le> 0 \<and> (1::int) \<le> 1
   \<and> 1 < num_channels (args ecv_sim)
   \<and> ffd 1 \<in> sensing_nodes sensing_state (0, 1)
   \<and> is_a_neighbor_transmitting (state_at_offset ecv_sim loud_radio 0 1 sensing_state)
        loud_radio (ffd 1) 0 1
   \<and> \<not> is_final_cell ecv_sim 0 1
   \<and> ffd 1 \<in> sensing_nodes (execute_sensing ecv_sim loud_radio 0 sensing_state) (0, 2)"
proof -
  have m: "method_of ecv_sim \<in> {ECV, ECH}" by (simp add: ecv_sim_sel)
  have c: "1 < num_channels (args ecv_sim)" by (simp add: ecv_sim_sel)
  have n: "ffd 1 \<in> sensing_nodes sensing_state (0, 1)" by (simp add: sensing_state_def)
  have f: "\<not> is_final_cell ecv_sim 0 1" by (simp add: is_final_cell_def ecv_sim_sel)
  note t = sensing_walk[OF m _ _ c n sensing_state_busy]
  have "ffd 1 \<in> sensing_nodes (execute_sensing ecv_sim loud_radio 0 sensing_state)
                   (if (1::int) = num_channels (args ecv_sim) - 1 then (0 + 1, 1) else (0, 1 + 1))"
    using t f ecv_sim_sel(1) by simp
  then have "ffd 1 \<in> sensing_nodes (execute_sensing ecv_sim loud_radio 0 sensing_state) (0, 2)"
    by (simp add: ecv_sim_sel)
  then show ?thesis using m c n sensing_state_busy f by simp
qed

section \<open>Claim C7: a promoted node is silent in the subslot of its promotion\<close>






end
